theory Spec2Isabelle
  imports Main
begin

section \<open>JavaScript values\<close>

text \<open>
  The query documents handled by \<^verbatim>\<open>addOrClause\<close> and \<^verbatim>\<open>removeFieldReferences\<close> are plain
  JavaScript values. An object is the list of its own enumerable properties in enumeration
  order, an array the list of its elements. Numbers are integers here: the functions
  only test a number for truthiness. A thrown \<^verbatim>\<open>TypeError\<close> (the only exception the two
  functions can raise) is the result \<open>None\<close>.
\<close>

datatype jsval =
    JUndefined
  | JNull
  | JBool bool
  | JNum int
  | JStr string
  | JArr "jsval list"
  | JObj "(string \<times> jsval) list"

type_synonym props = "(string \<times> jsval) list"

text \<open>Truthiness, as tested by \<^verbatim>\<open>if (x)\<close> and \<^verbatim>\<open>x || y\<close>.\<close>

fun truthy :: "jsval \<Rightarrow> bool" where
  "truthy JUndefined = False"
| "truthy JNull = False"
| "truthy (JBool b) = b"
| "truthy (JNum n) = (n \<noteq> 0)"
| "truthy (JStr s) = (s \<noteq> [])"
| "truthy (JArr xs) = True"
| "truthy (JObj ps) = True"

text \<open>\<^verbatim>\<open>x || []\<close>\<close>

definition or_empty :: "jsval \<Rightarrow> jsval" where
  "or_empty x = (if truthy x then x else JArr [])"

subsection \<open>Array indices as property keys\<close>

definition digit_char :: "nat \<Rightarrow> char" where
  "digit_char n = char_of (48 + n mod 10)"

function dec :: "nat \<Rightarrow> string" where
  "dec n = (if n < 10 then [digit_char n] else dec (n div 10) @ [digit_char n])"
  by pat_completeness auto
termination
  by (relation "measure (\<lambda>n. n)") auto

definition is_digit :: "char \<Rightarrow> bool" where
  "is_digit c = (48 \<le> (of_char c :: nat) \<and> (of_char c :: nat) \<le> 57)"

definition num_val :: "string \<Rightarrow> int" where
  "num_val s = foldl (\<lambda>n c. 10 * n + (of_char c - 48)) 0 s"

text \<open>
  An array index is the canonical decimal string of an integer below \<open>2^32 - 1\<close>. An
  object enumerates its array-index keys first, in ascending numeric order, and then its
  other string keys in the order of their creation.
\<close>

definition is_array_index :: "string \<Rightarrow> bool" where
  "is_array_index s =
     (s \<noteq> [] \<and> list_all is_digit s \<and> (s = ''0'' \<or> hd s \<noteq> CHR ''0'')
      \<and> num_val s < 4294967295)"

definition indexed :: "jsval list \<Rightarrow> props" where
  "indexed xs = zip (map dec [0..<length xs]) xs"

subsection \<open>Properties\<close>

text \<open>
  The own enumerable properties copied by a rest pattern \<^verbatim>\<open>const {..., ...rest} = v\<close> and
  listed by \<^verbatim>\<open>Object.keys(v)\<close>: both throw on \<^verbatim>\<open>null\<close> and \<^verbatim>\<open>undefined\<close>, find nothing
  on a boolean or a number, and the indexed elements of a string or an array.
\<close>

fun own_props :: "jsval \<Rightarrow> props option" where
  "own_props JUndefined = None"
| "own_props JNull = None"
| "own_props (JBool b) = Some []"
| "own_props (JNum n) = Some []"
| "own_props (JStr s) = Some (indexed (map (\<lambda>c. JStr [c]) s))"
| "own_props (JArr xs) = Some (indexed xs)"
| "own_props (JObj ps) = Some ps"

text \<open>A spread \<^verbatim>\<open>{...v}\<close> in an object literal copies the same properties, and none of
  \<^verbatim>\<open>null\<close> and \<^verbatim>\<open>undefined\<close>.\<close>

definition spread_props :: "jsval \<Rightarrow> props" where
  "spread_props v = (case own_props v of None \<Rightarrow> [] | Some ps \<Rightarrow> ps)"

text \<open>Reading a property \<^verbatim>\<open>o.k\<close> of an object: \<^verbatim>\<open>undefined\<close> when the key is absent.\<close>

definition get_prop :: "props \<Rightarrow> string \<Rightarrow> jsval" where
  "get_prop ps k = (case map_of ps k of None \<Rightarrow> JUndefined | Some v \<Rightarrow> v)"

definition keys_of :: "props \<Rightarrow> string list" where
  "keys_of ps = map fst ps"

definition remove_key :: "string \<Rightarrow> props \<Rightarrow> props" where
  "remove_key k ps = filter (\<lambda>(k', v). k' \<noteq> k) ps"

text \<open>\<^verbatim>\<open>const {[field]: ignore, ...rest} = obj\<close>\<close>

definition rest_without :: "string \<Rightarrow> jsval \<Rightarrow> props option" where
  "rest_without field obj = map_option (remove_key field) (own_props obj)"

text \<open>
  Defining a property while an object literal is built: an existing key keeps its place
  and takes the new value, a new array-index key goes to its numeric place among the
  array-index keys, any other new key goes last.
\<close>

fun insert_index :: "string \<Rightarrow> jsval \<Rightarrow> props \<Rightarrow> props" where
  "insert_index k v [] = [(k, v)]"
| "insert_index k v ((k', v') # ps) =
     (if is_array_index k' \<and> num_val k' < num_val k
      then (k', v') # insert_index k v ps
      else (k, v) # (k', v') # ps)"

definition put :: "string \<Rightarrow> jsval \<Rightarrow> props \<Rightarrow> props" where
  "put k v ps =
     (if k \<in> set (keys_of ps) then map (\<lambda>(k', v'). if k' = k then (k', v) else (k', v')) ps
      else if is_array_index k then insert_index k v ps
      else ps @ [(k, v)])"

text \<open>\<^verbatim>\<open>{...base, ...extra}\<close> once \<open>base\<close> has been copied: the properties of \<open>extra\<close> are
  defined one after the other.\<close>

definition spread :: "props \<Rightarrow> props \<Rightarrow> props" where
  "spread base extra = foldl (\<lambda>acc (k, v). put k v acc) base extra"

text \<open>An array spread \<^verbatim>\<open>[...v]\<close> iterates an array or the characters of a string; any
  other value that reaches it here is not iterable.\<close>

fun iterate :: "jsval \<Rightarrow> jsval list option" where
  "iterate (JArr xs) = Some xs"
| "iterate (JStr s) = Some (map (\<lambda>c. JStr [c]) s)"
| "iterate v = None"

text \<open>\<^verbatim>\<open>v.map(f)\<close> is a call of \<^verbatim>\<open>Array.prototype.map\<close> on an array only; on any other
  value \<^verbatim>\<open>v.map\<close> is not a function.\<close>

fun elements :: "jsval \<Rightarrow> jsval list option" where
  "elements (JArr xs) = Some xs"
| "elements v = None"

text \<open>The results of the callbacks of a \<^verbatim>\<open>map\<close>, or the exception one of them threw.\<close>

fun collect :: "'a option list \<Rightarrow> 'a list option" where
  "collect [] = Some []"
| "collect (None # rs) = None"
| "collect (Some r # rs) = (case collect rs of None \<Rightarrow> None | Some ys \<Rightarrow> Some (r # ys))"

text \<open>\<^verbatim>\<open>Object.keys(q).length > 0\<close>\<close>

definition has_keys :: "jsval \<Rightarrow> bool option" where
  "has_keys q = map_option (\<lambda>ps. length (keys_of ps) > 0) (own_props q)"

text \<open>\<^verbatim>\<open>qs.filter(q => Object.keys(q).length > 0)\<close>\<close>

fun filter_nonempty :: "jsval list \<Rightarrow> jsval list option" where
  "filter_nonempty [] = Some []"
| "filter_nonempty (q # qs) =
     (case has_keys q of
        None \<Rightarrow> None
      | Some keep \<Rightarrow>
          (case filter_nonempty qs of
             None \<Rightarrow> None
           | Some rs \<Rightarrow> Some (if keep then q # rs else rs)))"

section \<open>The key omitter\<close>

text \<open>
  \<^verbatim>\<open>const omit = (obj, [field, ...nextFields]) => {
    const {[field]: ignore, ...rest} = obj;
    return nextFields.length > 0 ? omit(rest, nextFields) : rest;
  };\<close>
  With an empty list of keys \<^verbatim>\<open>field\<close> is \<^verbatim>\<open>undefined\<close>, and the computed key
  \<^verbatim>\<open>[undefined]\<close> is the property key \<^verbatim>\<open>"undefined"\<close>.
\<close>

fun omit :: "jsval \<Rightarrow> string list \<Rightarrow> props option" where
  "omit obj [] = rest_without ''undefined'' obj"
| "omit obj (field # nextFields) =
     (case rest_without field obj of
        None \<Rightarrow> None
      | Some rest \<Rightarrow> if length nextFields > 0 then omit (JObj rest) nextFields else Some rest)"

section \<open>The field reference remover\<close>

text \<open>
  \<^verbatim>\<open>(v || []).map(q => f(q)).filter(q => Object.keys(q).length > 0)\<close>, given the results
  of the callbacks: the outer \<open>None\<close> is the \<^verbatim>\<open>TypeError\<close> of a \<^verbatim>\<open>map\<close> that is no function,
  an inner one that of a callback.
\<close>

definition surviving :: "jsval option list option \<Rightarrow> jsval list option" where
  "surviving rs =
     (case rs of
        None \<Rightarrow> None
      | Some os \<Rightarrow> (case collect os of None \<Rightarrow> None | Some qs \<Rightarrow> filter_nonempty qs))"

text \<open>
  \<^verbatim>\<open>function removeFieldReferences(query, fieldName, maxDepth = 5) {
    if (maxDepth <= 0) {
      return query;
    }
    const filteredTopLevel = omit(query, [fieldName]);
    const newOr = (filteredTopLevel.$or || [])
      .map(q => removeFieldReferences(q, fieldName, maxDepth - 1))
      .filter(q => Object.keys(q).length > 0);
    const newAnd = (filteredTopLevel.$and || [])
      .map(q => removeFieldReferences(q, fieldName, maxDepth - 1))
      .filter(q => Object.keys(q).length > 0);
    return {
      ...omit(filteredTopLevel, ['$or', '$and']),
      ...(newOr.length > 0 ? {$or: newOr} : {}),
      ...(newAnd.length > 0 ? {$and: newAnd} : {})
    };
  }\<close>
  The repository has the function twice, with the same body: as \<^verbatim>\<open>removeFieldReferences\<close>
  and as \<^verbatim>\<open>removeFieldClausesFromQuery\<close>. \<^verbatim>\<open>maxDepth\<close> is an integer.
\<close>

function removeFieldReferences :: "jsval \<Rightarrow> string \<Rightarrow> int \<Rightarrow> jsval option" where
  "removeFieldReferences query fieldName maxDepth =
     (if maxDepth \<le> 0 then Some query
      else
        (case omit query [fieldName] of
           None \<Rightarrow> None
         | Some filteredTopLevel \<Rightarrow>
             (case surviving (map_option
                     (map (\<lambda>q. removeFieldReferences q fieldName (maxDepth - 1)))
                     (elements (or_empty (get_prop filteredTopLevel ''$or'')))) of
                None \<Rightarrow> None
              | Some newOr \<Rightarrow>
                  (case surviving (map_option
                          (map (\<lambda>q. removeFieldReferences q fieldName (maxDepth - 1)))
                          (elements (or_empty (get_prop filteredTopLevel ''$and'')))) of
                     None \<Rightarrow> None
                   | Some newAnd \<Rightarrow>
                       (case omit (JObj filteredTopLevel) [''$or'', ''$and''] of
                          None \<Rightarrow> None
                        | Some rest \<Rightarrow>
                            Some (JObj
                              (spread
                                (spread rest
                                  (if length newOr > 0 then [(''$or'', JArr newOr)] else []))
                                (if length newAnd > 0 then [(''$and'', JArr newAnd)] else []))))))))"
  by pat_completeness auto
termination
  by (relation "measure (\<lambda>(q, f, d). nat d)") auto

text \<open>A call that leaves \<^verbatim>\<open>maxDepth\<close> out takes the default, \<^verbatim>\<open>maxDepth = 5\<close>.\<close>

definition removeFieldReferences_default :: "jsval \<Rightarrow> string \<Rightarrow> jsval option" where
  "removeFieldReferences_default query fieldName = removeFieldReferences query fieldName 5"

section \<open>The or-clause merger\<close>

text \<open>
  \<^verbatim>\<open>function addOrClause(query, orClause) {
    const {$or, ...queryRest} = query;
    if ($or) {
      return {...queryRest, $and: [...(queryRest.$and || []), {$or}, orClause]};
    }
    if (queryRest.$and) {
      return {...queryRest, $and: [...queryRest.$and, orClause]};
    }
    return {...query, ...orClause};
  }\<close>
\<close>

definition addOrClause :: "jsval \<Rightarrow> jsval \<Rightarrow> jsval option" where
  "addOrClause query orClause =
     (case own_props query of
        None \<Rightarrow> None
      | Some qprops \<Rightarrow>
          (let or = get_prop qprops ''$or''; queryRest = remove_key ''$or'' qprops in
           if truthy or then
             (case iterate (or_empty (get_prop queryRest ''$and'')) of
                None \<Rightarrow> None
              | Some ands \<Rightarrow>
                  Some (JObj (put ''$and'' (JArr (ands @ [JObj [(''$or'', or)], orClause]))
                                queryRest)))
           else if truthy (get_prop queryRest ''$and'') then
             (case iterate (get_prop queryRest ''$and'') of
                None \<Rightarrow> None
              | Some ands \<Rightarrow>
                  Some (JObj (put ''$and'' (JArr (ands @ [orClause])) queryRest)))
           else Some (JObj (spread qprops (spread_props orClause)))))"

section \<open>Query documents\<close>

text \<open>
  A query document is an object whose \<^verbatim>\<open>$or\<close> and \<^verbatim>\<open>$and\<close> values, where present, are
  arrays of query documents; the values of all other keys are opaque.
\<close>

fun is_query :: "jsval \<Rightarrow> bool" where
  "is_query (JObj ps) =
     list_all (\<lambda>(k, v). if k = ''$or'' \<or> k = ''$and''
                          then (case v of JArr qs \<Rightarrow> list_all is_query qs | _ \<Rightarrow> False)
                          else True) ps"
| "is_query v = False"

text \<open>
  The invalid shapes: a \<^verbatim>\<open>$or\<close> or \<^verbatim>\<open>$and\<close> key mapped to an empty array, and an empty
  document as an element of a \<^verbatim>\<open>$or\<close> or \<^verbatim>\<open>$and\<close> array, at any nesting level.
\<close>

fun no_invalid_shape :: "jsval \<Rightarrow> bool" where
  "no_invalid_shape (JObj ps) =
     list_all (\<lambda>(k, v). if k = ''$or'' \<or> k = ''$and''
                          then (case v of
                                  JArr qs \<Rightarrow>
                                    qs \<noteq> [] \<and> list_all (\<lambda>q. q \<noteq> JObj [] \<and> no_invalid_shape q) qs
                                | _ \<Rightarrow> True)
                          else True) ps"
| "no_invalid_shape v = True"

text \<open>The condition of \<open>no_invalid_shape\<close> on one property.\<close>

definition entry_ok :: "string \<times> jsval \<Rightarrow> bool" where
  "entry_ok = (\<lambda>(k, v). if k = ''$or'' \<or> k = ''$and''
                          then (case v of
                                  JArr qs \<Rightarrow>
                                    qs \<noteq> [] \<and> list_all (\<lambda>q. q \<noteq> JObj [] \<and> no_invalid_shape q) qs
                                | _ \<Rightarrow> True)
                          else True)"

text \<open>
  \<open>no_invalid_within n q\<close>: the documents of \<open>q\<close> at a nesting level below \<open>n\<close> have no
  \<^verbatim>\<open>$or\<close> or \<^verbatim>\<open>$and\<close> key mapped to an empty array and no empty document in such an array.
\<close>

fun no_invalid_within :: "nat \<Rightarrow> jsval \<Rightarrow> bool" where
  "no_invalid_within 0 q = True"
| "no_invalid_within (Suc n) q =
     (case q of
        JObj ps \<Rightarrow>
          list_all (\<lambda>(k, v). if k = ''$or'' \<or> k = ''$and''
                               then (case v of
                                       JArr qs \<Rightarrow>
                                         qs \<noteq> [] \<and> list_all (\<lambda>x. x \<noteq> JObj [] \<and> no_invalid_within n x) qs
                                     | _ \<Rightarrow> True)
                               else True) ps
      | _ \<Rightarrow> True)"

text \<open>The sub-queries of a document: the elements of its \<^verbatim>\<open>$or\<close> and of its \<^verbatim>\<open>$and\<close> array.\<close>

definition clause_list :: "props \<Rightarrow> string \<Rightarrow> jsval list" where
  "clause_list ps k = (case get_prop ps k of JArr qs \<Rightarrow> qs | _ \<Rightarrow> [])"

definition sub_queries :: "props \<Rightarrow> jsval list" where
  "sub_queries ps = clause_list ps ''$or'' @ clause_list ps ''$and''"

text \<open>
  \<open>field_within n f q\<close>: the key \<open>f\<close> occurs in \<open>q\<close> at a nesting level below \<open>n\<close>, the top
  level being level 0 and the sub-queries of a document of level \<open>i\<close> being of level
  \<open>i + 1\<close>. These are the levels that a call with \<^verbatim>\<open>maxDepth = n\<close> rewrites: the documents
  of level \<open>n\<close> are handed to a call with \<^verbatim>\<open>maxDepth = 0\<close>, which returns them as they are.
\<close>

fun field_within :: "nat \<Rightarrow> string \<Rightarrow> jsval \<Rightarrow> bool" where
  "field_within 0 f q = False"
| "field_within (Suc n) f q =
     (case q of
        JObj ps \<Rightarrow> f \<in> set (keys_of ps) \<or> list_ex (field_within n f) (sub_queries ps)
      | _ \<Rightarrow> False)"

subsection \<open>Structural equality\<close>

lemma size_get_prop: "k \<in> set (keys_of ps) \<Longrightarrow> size (get_prop ps k) < size (JObj ps)"
proof (induction ps)
  case Nil
  then show ?case by (simp add: keys_of_def)
next
  case (Cons p ps)
  then show ?case by (cases p) (force simp: keys_of_def get_prop_def)
qed

lemma size_element: "x \<in> set xs \<Longrightarrow> size x < size (JArr xs)"
  by (induction xs) auto

text \<open>
  Equality of two values up to the order of the keys of their objects, as a deep
  comparison of two documents sees it: the same keys with structurally equal values, and
  arrays equal element by element.
\<close>

function struct_eq :: "jsval \<Rightarrow> jsval \<Rightarrow> bool" where
  "struct_eq (JObj ps) (JObj qs) =
     (list_all (\<lambda>k. k \<in> set (keys_of qs)) (keys_of ps) \<and>
      list_all (\<lambda>k. k \<in> set (keys_of ps)) (keys_of qs) \<and>
      list_all (\<lambda>k. struct_eq (get_prop ps k) (get_prop qs k)) (keys_of ps))"
| "struct_eq (JArr xs) (JArr ys) = list_all2 struct_eq xs ys"
| "struct_eq JUndefined b = (b = JUndefined)"
| "struct_eq JNull b = (b = JNull)"
| "struct_eq (JBool x) b = (b = JBool x)"
| "struct_eq (JNum n) b = (b = JNum n)"
| "struct_eq (JStr s) b = (b = JStr s)"
| "struct_eq (JArr xs) JUndefined = False"
| "struct_eq (JArr xs) JNull = False"
| "struct_eq (JArr xs) (JBool x) = False"
| "struct_eq (JArr xs) (JNum n) = False"
| "struct_eq (JArr xs) (JStr s) = False"
| "struct_eq (JArr xs) (JObj qs) = False"
| "struct_eq (JObj ps) JUndefined = False"
| "struct_eq (JObj ps) JNull = False"
| "struct_eq (JObj ps) (JBool x) = False"
| "struct_eq (JObj ps) (JNum n) = False"
| "struct_eq (JObj ps) (JStr s) = False"
| "struct_eq (JObj ps) (JArr ys) = False"
  by pat_completeness auto
termination
proof (relation "measure (\<lambda>(a, b). size a)")
  show "wf (measure (\<lambda>(a, b). size a))" by simp
next
  fix ps qs :: props and k
  assume "k \<in> set (keys_of ps)"
  then show "((get_prop ps k, get_prop qs k), JObj ps, JObj qs) \<in> measure (\<lambda>(a, b). size a)"
    using size_get_prop [of k ps] by simp
next
  fix xs ys :: "jsval list" and x y
  assume "x \<in> set xs"
  then show "((x, y), JArr xs, JArr ys) \<in> measure (\<lambda>(a, b). size a)"
    using size_element [of x xs] by simp
qed

subsection \<open>The shape of a result\<close>

text \<open>
  Two names for the proofs. \<open>survivors\<close> are the entries that the filter
  \<^verbatim>\<open>q => Object.keys(q).length > 0\<close> keeps, and \<open>assemble\<close> is the object that the final
  object literal of \<^verbatim>\<open>removeFieldReferences\<close> builds from the properties \<open>ps\<close> of the query:
  the keys other than \<open>f\<close>, \<^verbatim>\<open>$or\<close> and \<^verbatim>\<open>$and\<close>, then \<^verbatim>\<open>$or\<close> and \<^verbatim>\<open>$and\<close> where the new
  arrays are not empty.
\<close>

definition survivors :: "jsval list \<Rightarrow> jsval list" where
  "survivors ys = filter (\<lambda>y. has_keys y = Some True) ys"

definition assemble :: "props \<Rightarrow> string \<Rightarrow> jsval list \<Rightarrow> jsval list \<Rightarrow> props" where
  "assemble ps f newOr newAnd =
     remove_key ''$and'' (remove_key ''$or'' (remove_key f ps))
       @ (if newOr = [] then [] else [(''$or'', JArr newOr)])
       @ (if newAnd = [] then [] else [(''$and'', JArr newAnd)])"

section \<open>Properties of the model\<close>

subsection \<open>Keys and properties\<close>

declare removeFieldReferences.simps [simp del]

lemma or_not_index: "\<not> is_array_index ''$or''"
  by (simp add: is_array_index_def is_digit_def)

lemma and_not_index: "\<not> is_array_index ''$and''"
  by (simp add: is_array_index_def is_digit_def)

lemma keys_of_simps [simp]:
  "keys_of [] = []" "keys_of ((k, v) # ps) = k # keys_of ps"
  "keys_of (ps @ qs) = keys_of ps @ keys_of qs"
  by (simp_all add: keys_of_def)

lemma keys_remove_key: "keys_of (remove_key k ps) = filter (\<lambda>k'. k' \<noteq> k) (keys_of ps)"
  by (induction ps) (auto simp: remove_key_def)

lemma map_of_remove_key: "map_of (remove_key k ps) k' = (if k' = k then None else map_of ps k')"
  by (induction ps) (auto simp: remove_key_def)

lemma get_prop_remove_key:
  "get_prop (remove_key k ps) k' = (if k' = k then JUndefined else get_prop ps k')"
  by (simp add: get_prop_def map_of_remove_key)

lemma remove_key_absent: "k \<notin> set (keys_of ps) \<Longrightarrow> remove_key k ps = ps"
  by (induction ps) (auto simp: remove_key_def)

lemma remove_key_append: "remove_key k (ps @ qs) = remove_key k ps @ remove_key k qs"
  by (simp add: remove_key_def)

lemma remove_key_commute: "remove_key k (remove_key k' ps) = remove_key k' (remove_key k ps)"
  by (induction ps) (auto simp: remove_key_def)

lemma in_keys_iff: "k \<in> set (keys_of ps) \<longleftrightarrow> map_of ps k \<noteq> None"
  by (simp add: keys_of_def map_of_eq_None_iff)

lemma get_prop_absent: "k \<notin> set (keys_of ps) \<Longrightarrow> get_prop ps k = JUndefined"
  by (simp add: get_prop_def in_keys_iff)

lemma get_prop_append:
  "get_prop (ps @ qs) k = (if k \<in> set (keys_of ps) then get_prop ps k else get_prop qs k)"
  by (auto simp: get_prop_def in_keys_iff map_add_def split: option.splits)

lemma map_of_insert_index:
  "k \<notin> set (keys_of ps) \<Longrightarrow> map_of (insert_index k v ps) k' = ((map_of ps)(k \<mapsto> v)) k'"
  by (induction ps) auto

lemma map_of_update_all:
  "map_of (map (\<lambda>(k', v'). if k' = k then (k', v) else (k', v')) ps) k' =
     (if k' = k \<and> k \<in> set (keys_of ps) then Some v else map_of ps k')"
  by (induction ps) auto

lemma map_of_put: "map_of (put k v ps) = (map_of ps)(k \<mapsto> v)"
proof
  fix k'
  show "map_of (put k v ps) k' = ((map_of ps)(k \<mapsto> v)) k'"
    by (auto simp: put_def map_of_insert_index map_of_update_all map_add_def in_keys_iff
             split: option.splits)
qed

lemma get_prop_put: "get_prop (put k v ps) k' = (if k' = k then v else get_prop ps k')"
  by (simp add: get_prop_def map_of_put)

lemma put_new: "k \<notin> set (keys_of ps) \<Longrightarrow> \<not> is_array_index k \<Longrightarrow> put k v ps = ps @ [(k, v)]"
  by (simp add: put_def)

lemma keys_update_all:
  "keys_of (map (\<lambda>(k', v'). if k' = k then (k', v) else (k', v')) ps) = keys_of ps"
  by (induction ps) auto

lemma keys_put_old: "k \<in> set (keys_of ps) \<Longrightarrow> keys_of (put k v ps) = keys_of ps"
  by (simp add: put_def keys_update_all)

lemma set_keys_of: "set (keys_of ps) = dom (map_of ps)"
  by (simp add: keys_of_def dom_map_of_conv_image_fst)

lemma set_keys_put: "set (keys_of (put k v ps)) = insert k (set (keys_of ps))"
  by (simp add: set_keys_of map_of_put)

lemma spread_Nil: "spread ps [] = ps"
  by (simp add: spread_def)

lemma spread_single: "spread ps [(k, v)] = put k v ps"
  by (simp add: spread_def)

lemma omit_single: "omit q [f] = rest_without f q"
  by (simp split: option.splits)

lemma omit_or_and: "omit (JObj ps) [''$or'', ''$and''] = Some (remove_key ''$and'' (remove_key ''$or'' ps))"
  by (simp add: rest_without_def)

lemma collect_map_Some: "collect (map Some ys) = Some ys"
  by (induction ys) auto

lemma collect_SomeD: "collect os = Some ys \<Longrightarrow> os = map Some ys"
proof (induction os arbitrary: ys)
  case Nil
  then show ?case by simp
next
  case (Cons a os)
  then show ?case by (cases a) (auto split: option.splits)
qed

lemma collect_Some: "collect os = Some ys \<longleftrightarrow> os = map Some ys"
  using collect_SomeD collect_map_Some by blast

lemma filter_nonempty_eq:
  "filter_nonempty ys =
     (if \<forall>y \<in> set ys. has_keys y \<noteq> None
      then Some (filter (\<lambda>y. has_keys y = Some True) ys) else None)"
  by (induction ys) (auto split: option.splits)

lemma map_eq_map_Some: "map g xs = map Some ys \<longleftrightarrow> list_all2 (\<lambda>x y. g x = Some y) xs ys"
proof (induction xs arbitrary: ys)
  case Nil
  then show ?case by auto
next
  case (Cons x xs)
  then show ?case by (cases ys) auto
qed

lemma surviving_Some:
  "surviving (map_option (map g) (elements v)) = Some rs \<longleftrightarrow>
   (\<exists>xs ys. v = JArr xs \<and> list_all2 (\<lambda>x y. g x = Some y) xs ys \<and>
            (\<forall>y \<in> set ys. has_keys y \<noteq> None) \<and> rs = filter (\<lambda>y. has_keys y = Some True) ys)"
proof (cases v)
  case (JArr xs)
  show ?thesis
  proof
    assume "surviving (map_option (map g) (elements v)) = Some rs"
    then obtain ys where "collect (map g xs) = Some ys" "filter_nonempty ys = Some rs"
      using JArr by (auto simp: surviving_def split: option.splits)
    then show "\<exists>xs ys. v = JArr xs \<and> list_all2 (\<lambda>x y. g x = Some y) xs ys \<and>
            (\<forall>y \<in> set ys. has_keys y \<noteq> None) \<and> rs = filter (\<lambda>y. has_keys y = Some True) ys"
      using JArr by (auto simp: collect_Some map_eq_map_Some filter_nonempty_eq split: if_splits)
  next
    assume "\<exists>xs ys. v = JArr xs \<and> list_all2 (\<lambda>x y. g x = Some y) xs ys \<and>
            (\<forall>y \<in> set ys. has_keys y \<noteq> None) \<and> rs = filter (\<lambda>y. has_keys y = Some True) ys"
    then obtain ys where "map g xs = map Some ys" "\<forall>y \<in> set ys. has_keys y \<noteq> None"
      "rs = filter (\<lambda>y. has_keys y = Some True) ys"
      using JArr by (auto simp: map_eq_map_Some)
    then show "surviving (map_option (map g) (elements v)) = Some rs"
      using JArr by (simp add: surviving_def collect_map_Some filter_nonempty_eq)
  qed
qed (simp_all add: surviving_def)

lemma rfr_zero: "d \<le> 0 \<Longrightarrow> removeFieldReferences q f d = Some q"
  by (simp add: removeFieldReferences.simps)

lemma rfr_pos:
  "0 < d \<Longrightarrow> removeFieldReferences q f d =
     (case own_props q of
        None \<Rightarrow> None
      | Some ps \<Rightarrow>
          (case surviving (map_option (map (\<lambda>x. removeFieldReferences x f (d - 1)))
                   (elements (or_empty (get_prop (remove_key f ps) ''$or'')))) of
             None \<Rightarrow> None
           | Some newOr \<Rightarrow>
               (case surviving (map_option (map (\<lambda>x. removeFieldReferences x f (d - 1)))
                        (elements (or_empty (get_prop (remove_key f ps) ''$and'')))) of
                  None \<Rightarrow> None
                | Some newAnd \<Rightarrow> Some (JObj (assemble ps f newOr newAnd)))))"
  by (subst removeFieldReferences.simps)
     (simp add: omit_single omit_or_and rest_without_def assemble_def spread_Nil spread_single
           put_new keys_remove_key or_not_index and_not_index split: option.splits)

subsection \<open>One level of removal\<close>

lemma rfr_Suc:
  "removeFieldReferences q f (int (Suc n)) =
     (case own_props q of
        None \<Rightarrow> None
      | Some ps \<Rightarrow>
          (case surviving (map_option (map (\<lambda>x. removeFieldReferences x f (int n)))
                   (elements (or_empty (get_prop (remove_key f ps) ''$or'')))) of
             None \<Rightarrow> None
           | Some newOr \<Rightarrow>
               (case surviving (map_option (map (\<lambda>x. removeFieldReferences x f (int n)))
                        (elements (or_empty (get_prop (remove_key f ps) ''$and'')))) of
                  None \<Rightarrow> None
                | Some newAnd \<Rightarrow> Some (JObj (assemble ps f newOr newAnd)))))"
proof -
  have pos: "0 < int (Suc n)" by simp
  have pred: "int (Suc n) - 1 = int n" by simp
  show ?thesis by (simp only: rfr_pos [OF pos] pred)
qed

lemma rfr_SucE:
  assumes "removeFieldReferences q f (int (Suc n)) = Some r"
  obtains ps xo yo xa ya where
    "own_props q = Some ps"
    "or_empty (get_prop (remove_key f ps) ''$or'') = JArr xo"
    "list_all2 (\<lambda>x y. removeFieldReferences x f (int n) = Some y) xo yo"
    "\<forall>y \<in> set yo. has_keys y \<noteq> None"
    "or_empty (get_prop (remove_key f ps) ''$and'') = JArr xa"
    "list_all2 (\<lambda>x y. removeFieldReferences x f (int n) = Some y) xa ya"
    "\<forall>y \<in> set ya. has_keys y \<noteq> None"
    "r = JObj (assemble ps f (survivors yo) (survivors ya))"
proof -
  from assms obtain ps newOr newAnd where
    ps: "own_props q = Some ps"
    and o: "surviving (map_option (map (\<lambda>x. removeFieldReferences x f (int n)))
                   (elements (or_empty (get_prop (remove_key f ps) ''$or'')))) = Some newOr"
    and a: "surviving (map_option (map (\<lambda>x. removeFieldReferences x f (int n)))
                   (elements (or_empty (get_prop (remove_key f ps) ''$and'')))) = Some newAnd"
    and r: "r = JObj (assemble ps f newOr newAnd)"
    by (auto simp: rfr_Suc simp del: of_nat_Suc split: option.splits)
  from o obtain xo yo where
    "or_empty (get_prop (remove_key f ps) ''$or'') = JArr xo"
    "list_all2 (\<lambda>x y. removeFieldReferences x f (int n) = Some y) xo yo"
    "\<forall>y \<in> set yo. has_keys y \<noteq> None" "newOr = survivors yo"
    unfolding surviving_Some survivors_def by blast
  moreover from a obtain xa ya where
    "or_empty (get_prop (remove_key f ps) ''$and'') = JArr xa"
    "list_all2 (\<lambda>x y. removeFieldReferences x f (int n) = Some y) xa ya"
    "\<forall>y \<in> set ya. has_keys y \<noteq> None" "newAnd = survivors ya"
    unfolding surviving_Some survivors_def by blast
  ultimately show ?thesis using that ps r by blast
qed

lemma rfr_SucI:
  assumes "own_props q = Some ps"
    "or_empty (get_prop (remove_key f ps) ''$or'') = JArr xo"
    "list_all2 (\<lambda>x y. removeFieldReferences x f (int n) = Some y) xo yo"
    "\<forall>y \<in> set yo. has_keys y \<noteq> None"
    "or_empty (get_prop (remove_key f ps) ''$and'') = JArr xa"
    "list_all2 (\<lambda>x y. removeFieldReferences x f (int n) = Some y) xa ya"
    "\<forall>y \<in> set ya. has_keys y \<noteq> None"
  shows "removeFieldReferences q f (int (Suc n)) = Some (JObj (assemble ps f (survivors yo) (survivors ya)))"
proof -
  have "surviving (map_option (map (\<lambda>x. removeFieldReferences x f (int n)))
           (elements (or_empty (get_prop (remove_key f ps) ''$or'')))) = Some (survivors yo)"
    unfolding surviving_Some survivors_def using assms(2,3,4) by blast
  moreover have "surviving (map_option (map (\<lambda>x. removeFieldReferences x f (int n)))
           (elements (or_empty (get_prop (remove_key f ps) ''$and'')))) = Some (survivors ya)"
    unfolding surviving_Some survivors_def using assms(5,6,7) by blast
  ultimately show ?thesis using assms(1) by (simp add: rfr_Suc del: of_nat_Suc)
qed

lemma rfr_induct [consumes 1, case_names zero step]:
  assumes "removeFieldReferences q f (int n) = Some r"
    and zero: "\<And>q. P 0 q q"
    and step: "\<And>n q ps xo yo xa ya.
      \<lbrakk>own_props q = Some ps;
       or_empty (get_prop (remove_key f ps) ''$or'') = JArr xo;
       list_all2 (\<lambda>x y. removeFieldReferences x f (int n) = Some y \<and> P n x y) xo yo;
       \<forall>y \<in> set yo. has_keys y \<noteq> None;
       or_empty (get_prop (remove_key f ps) ''$and'') = JArr xa;
       list_all2 (\<lambda>x y. removeFieldReferences x f (int n) = Some y \<and> P n x y) xa ya;
       \<forall>y \<in> set ya. has_keys y \<noteq> None\<rbrakk>
      \<Longrightarrow> P (Suc n) q (JObj (assemble ps f (survivors yo) (survivors ya)))"
  shows "P n q r"
  using assms(1)
proof (induction n arbitrary: q r)
  case 0
  then show ?case using zero by (simp add: rfr_zero)
next
  case (Suc n)
  from Suc.prems obtain ps xo yo xa ya where h:
    "own_props q = Some ps"
    "or_empty (get_prop (remove_key f ps) ''$or'') = JArr xo"
    "list_all2 (\<lambda>x y. removeFieldReferences x f (int n) = Some y) xo yo"
    "\<forall>y \<in> set yo. has_keys y \<noteq> None"
    "or_empty (get_prop (remove_key f ps) ''$and'') = JArr xa"
    "list_all2 (\<lambda>x y. removeFieldReferences x f (int n) = Some y) xa ya"
    "\<forall>y \<in> set ya. has_keys y \<noteq> None"
    "r = JObj (assemble ps f (survivors yo) (survivors ya))"
    by (rule rfr_SucE)
  have "list_all2 (\<lambda>x y. removeFieldReferences x f (int n) = Some y \<and> P n x y) xo yo"
    using h(3) Suc.IH by (auto elim: list_all2_mono)
  moreover have "list_all2 (\<lambda>x y. removeFieldReferences x f (int n) = Some y \<and> P n x y) xa ya"
    using h(6) Suc.IH by (auto elim: list_all2_mono)
  ultimately show ?case using step h by blast
qed

lemma rfr_int: "removeFieldReferences q f d = removeFieldReferences q f (int (nat d))"
  by (cases "d \<le> 0") (simp_all add: rfr_zero)

lemma is_query_clause:
  assumes "is_query (JObj ps)" "k = ''$or'' \<or> k = ''$and''"
  shows "\<exists>xs. or_empty (get_prop (remove_key f ps) k) = JArr xs \<and> (\<forall>x \<in> set xs. is_query x)"
proof (cases "map_of (remove_key f ps) k")
  case None
  then show ?thesis by (simp add: get_prop_def or_empty_def)
next
  case (Some v)
  then have "(k, v) \<in> set ps"
    by (auto simp: map_of_remove_key dest: map_of_SomeD split: if_splits)
  with assms have "case v of JArr qs \<Rightarrow> list_all is_query qs | _ \<Rightarrow> False"
    by (auto simp: list_all_iff)
  then obtain xs where "v = JArr xs" "\<forall>x \<in> set xs. is_query x"
    by (cases v) (simp_all add: list_all_iff)
  with Some show ?thesis by (simp add: get_prop_def or_empty_def)
qed

lemma rfr_total_nat: "is_query q \<Longrightarrow> \<exists>ps'. removeFieldReferences q f (int n) = Some (JObj ps')"
proof (induction n arbitrary: q)
  case 0
  then show ?case by (cases q) (simp_all add: rfr_zero)
next
  case (Suc n)
  from Suc.prems obtain ps where q: "q = JObj ps" by (cases q) simp_all
  from Suc.prems q obtain xo where xo: "or_empty (get_prop (remove_key f ps) ''$or'') = JArr xo"
    "\<forall>x \<in> set xo. is_query x" using is_query_clause by blast
  from Suc.prems q obtain xa where xa: "or_empty (get_prop (remove_key f ps) ''$and'') = JArr xa"
    "\<forall>x \<in> set xa. is_query x" using is_query_clause by blast
  have ex: "\<exists>ys. list_all2 (\<lambda>x y. removeFieldReferences x f (int n) = Some y) xs ys
                 \<and> (\<forall>y \<in> set ys. has_keys y \<noteq> None)"
    if "\<forall>x \<in> set xs. is_query x" for xs
    using that
  proof (induction xs)
    case Nil
    then show ?case by simp
  next
    case (Cons x xs)
    then obtain ys where "list_all2 (\<lambda>x y. removeFieldReferences x f (int n) = Some y) xs ys"
      "\<forall>y \<in> set ys. has_keys y \<noteq> None" by auto
    moreover from Cons.prems Suc.IH obtain p where "removeFieldReferences x f (int n) = Some (JObj p)"
      by auto
    ultimately have "list_all2 (\<lambda>x y. removeFieldReferences x f (int n) = Some y) (x # xs) (JObj p # ys)
        \<and> (\<forall>y \<in> set (JObj p # ys). has_keys y \<noteq> None)"
      by (simp add: has_keys_def)
    then show ?case by blast
  qed
  from ex [OF xo(2)] ex [OF xa(2)] xo(1) xa(1) q show ?case
    using rfr_SucI [of q ps f xo n _ xa] by fastforce
qed

lemma rfr_total: "is_query q \<Longrightarrow> \<exists>ps'. removeFieldReferences q f d = Some (JObj ps')"
  using rfr_total_nat [of q f "nat d"] rfr_int [of q f d] by simp

subsection \<open>The key omitter and the merger\<close>

lemma omit_nonempty:
  "keys \<noteq> [] \<Longrightarrow> omit (JObj ps) keys = Some (filter (\<lambda>(k, v). k \<notin> set keys) ps)"
proof (induction keys arbitrary: ps)
  case Nil
  then show ?case by simp
next
  case (Cons field nextFields)
  show ?case
  proof (cases "nextFields = []")
    case True
    then show ?thesis by (simp add: rest_without_def remove_key_def)
  next
    case False
    have "filter (\<lambda>(k, v). k \<notin> set nextFields) (remove_key field ps)
          = filter (\<lambda>(k, v). k \<notin> set (field # nextFields)) ps"
      by (induction ps) (auto simp: remove_key_def)
    with False Cons.IH show ?thesis by (simp add: rest_without_def)
  qed
qed

lemma is_query_get_prop:
  assumes "is_query (JObj ps)" "k = ''$or'' \<or> k = ''$and''" "k \<in> set (keys_of ps)"
  shows "\<exists>xs. get_prop ps k = JArr xs \<and> (\<forall>x \<in> set xs. is_query x)"
proof -
  from assms(3) obtain v where v: "map_of ps k = Some v" by (auto simp: in_keys_iff)
  then have "(k, v) \<in> set ps" by (rule map_of_SomeD)
  with assms have "case v of JArr qs \<Rightarrow> list_all is_query qs | _ \<Rightarrow> False"
    by (auto simp: list_all_iff)
  then obtain xs where "v = JArr xs" "\<forall>x \<in> set xs. is_query x"
    by (cases v) (simp_all add: list_all_iff)
  with v show ?thesis by (simp add: get_prop_def)
qed

lemma addOrClause_or:
  assumes "own_props q = Some ps" "truthy (get_prop ps ''$or'')"
    "iterate (or_empty (get_prop ps ''$and'')) = Some ands"
  shows "addOrClause q c =
     Some (JObj (put ''$and'' (JArr (ands @ [JObj [(''$or'', get_prop ps ''$or'')], c]))
                   (remove_key ''$or'' ps)))"
  using assms by (simp add: addOrClause_def get_prop_remove_key)

lemma addOrClause_and:
  assumes "own_props q = Some ps" "\<not> truthy (get_prop ps ''$or'')"
    "truthy (get_prop ps ''$and'')" "iterate (get_prop ps ''$and'') = Some ands"
  shows "addOrClause q c =
     Some (JObj (put ''$and'' (JArr (ands @ [c])) (remove_key ''$or'' ps)))"
  using assms by (simp add: addOrClause_def get_prop_remove_key)

lemma addOrClause_merge:
  assumes "own_props q = Some ps" "\<not> truthy (get_prop ps ''$or'')"
    "\<not> truthy (get_prop ps ''$and'')"
  shows "addOrClause q c = Some (JObj (spread ps (spread_props c)))"
  using assms by (simp add: addOrClause_def get_prop_remove_key)

lemma map_of_spread: "map_of (spread ps cs) = map_of ps ++ map_of (rev cs)"
proof (induction cs arbitrary: ps)
  case Nil
  then show ?case by (simp add: spread_def)
next
  case (Cons c cs)
  obtain k v where c: "c = (k, v)" by (cases c)
  have "spread ps (c # cs) = spread (put k v ps) cs" by (simp add: spread_def c)
  then show ?case
    using Cons.IH [of "put k v ps"]
    by (auto simp: c map_of_put fun_eq_iff map_add_def split: option.splits)
qed

lemma map_of_rev_distinct: "distinct (map fst cs) \<Longrightarrow> map_of (rev cs) = map_of cs"
  by (rule map_of_inject_set [THEN iffD2]) (simp_all add: rev_map [symmetric])

subsection \<open>Removal, level by level\<close>

lemma keys_assemble:
  "keys_of (assemble ps f newOr newAnd) =
     filter (\<lambda>k. k \<noteq> f \<and> k \<noteq> ''$or'' \<and> k \<noteq> ''$and'') (keys_of ps)
       @ (if newOr = [] then [] else [''$or''])
       @ (if newAnd = [] then [] else [''$and''])"
  by (auto simp: assemble_def keys_remove_key intro: filter_cong)

lemma get_prop_single [simp]:
  "get_prop [] k' = JUndefined" "get_prop [(k, v)] k' = (if k' = k then v else JUndefined)"
  by (simp_all add: get_prop_def)

lemma get_prop_assemble:
  "get_prop (assemble ps f newOr newAnd) k =
     (if k = ''$or'' then (if newOr = [] then JUndefined else JArr newOr)
      else if k = ''$and'' then (if newAnd = [] then JUndefined else JArr newAnd)
      else if k = f then JUndefined
      else get_prop ps k)"
  by (simp add: assemble_def get_prop_append keys_remove_key get_prop_remove_key get_prop_absent)

lemma clause_list_assemble:
  "clause_list (assemble ps f newOr newAnd) ''$or'' = newOr"
  "clause_list (assemble ps f newOr newAnd) ''$and'' = newAnd"
  by (simp_all add: clause_list_def get_prop_assemble)

lemma remove_key_assemble:
  "f = ''$or'' \<longrightarrow> newOr = [] \<Longrightarrow> f = ''$and'' \<longrightarrow> newAnd = [] \<Longrightarrow>
   remove_key f (assemble ps f newOr newAnd) = assemble ps f newOr newAnd"
  by (rule remove_key_absent) (auto simp: keys_assemble)

lemma removed_clause_empty:
  assumes "or_empty (get_prop (remove_key f ps) f) = JArr xs"
  shows "xs = []"
  using assms by (simp add: get_prop_remove_key or_empty_def)

lemma survivors_subset: "set (survivors ys) \<subseteq> set ys"
  by (auto simp: survivors_def)

lemma list_all2_rangeD: "list_all2 R xs ys \<Longrightarrow> y \<in> set ys \<Longrightarrow> \<exists>x \<in> set xs. R x y"
  by (induction rule: list_all2_induct) auto

lemma rfr_removes_field_nat:
  assumes "removeFieldReferences q f (int n) = Some r"
  shows "\<not> field_within n f r"
  using assms
proof (induction rule: rfr_induct)
  case (zero q)
  then show ?case by simp
next
  case (step n q ps xo yo xa ya)
  have o: "f = ''$or'' \<longrightarrow> survivors yo = []"
    using step removed_clause_empty [of f ps xo] by (auto simp: survivors_def)
  have a: "f = ''$and'' \<longrightarrow> survivors ya = []"
    using step removed_clause_empty [of f ps xa] by (auto simp: survivors_def)
  have "f \<notin> set (keys_of (assemble ps f (survivors yo) (survivors ya)))"
    using o a by (auto simp: keys_assemble)
  moreover have "\<not> field_within n f y" if "y \<in> set yo \<union> set ya" for y
    using that step by (auto dest: list_all2_rangeD)
  then have "\<not> list_ex (field_within n f) (survivors yo @ survivors ya)"
    using survivors_subset by (fastforce simp: list_ex_iff)
  ultimately show ?case by (simp add: sub_queries_def clause_list_assemble)
qed

lemma rfr_removes_field:
  "removeFieldReferences q f d = Some r \<Longrightarrow> \<not> field_within (nat d) f r"
  using rfr_removes_field_nat [of q f "nat d" r] rfr_int [of q f d] by simp

lemma remove_key_idem: "remove_key k (remove_key k ps) = remove_key k ps"
  by (simp add: remove_key_def)

lemma assemble_remove_key: "assemble (remove_key f ps) f newOr newAnd = assemble ps f newOr newAnd"
  by (simp add: assemble_def remove_key_idem)

lemma rfr_ignores_field:
  "0 < d \<Longrightarrow> removeFieldReferences (JObj (remove_key f ps)) f d = removeFieldReferences (JObj ps) f d"
  by (simp add: rfr_pos remove_key_idem assemble_remove_key cong: option.case_cong)

subsection \<open>Valid shapes\<close>

lemma list_all_remove_key: "list_all Q ps \<Longrightarrow> list_all Q (remove_key k ps)"
  by (simp add: remove_key_def list_all_iff)

lemma set_insert_index: "set (insert_index k v ps) = insert (k, v) (set ps)"
  by (induction ps) (auto split: if_splits)

lemma list_all_put: "list_all Q ps \<Longrightarrow> Q (k, v) \<Longrightarrow> list_all Q (put k v ps)"
  by (auto simp: put_def list_all_iff set_insert_index)

lemma list_all_spread: "list_all Q ps \<Longrightarrow> list_all Q cs \<Longrightarrow> list_all Q (spread ps cs)"
proof (induction cs arbitrary: ps)
  case Nil
  then show ?case by (simp add: spread_def)
next
  case (Cons c cs)
  obtain k v where c: "c = (k, v)" by (cases c)
  have "spread ps (c # cs) = spread (put k v ps) cs" by (simp add: spread_def c)
  with Cons c show ?case by (simp add: list_all_put)
qed

lemma no_invalid_shape_entries: "no_invalid_shape (JObj ps) = list_all entry_ok ps"
  by (simp add: entry_ok_def)

lemma entry_ok_clause:
  "entry_ok (k, JArr qs) \<longleftrightarrow>
     (k = ''$or'' \<or> k = ''$and'' \<longrightarrow> qs \<noteq> [] \<and> (\<forall>q \<in> set qs. q \<noteq> JObj [] \<and> no_invalid_shape q))"
  by (simp add: entry_ok_def list_all_iff)

lemma entry_ok_other: "k \<noteq> ''$or'' \<Longrightarrow> k \<noteq> ''$and'' \<Longrightarrow> entry_ok (k, v)"
  by (simp add: entry_ok_def)

lemma valid_get_prop:
  assumes "no_invalid_shape (JObj ps)" "k = ''$or'' \<or> k = ''$and''" "get_prop ps k = JArr xs"
    "k \<in> set (keys_of ps)"
  shows "xs \<noteq> [] \<and> (\<forall>x \<in> set xs. x \<noteq> JObj [] \<and> no_invalid_shape x)"
proof -
  from assms(4) obtain v where v: "map_of ps k = Some v" by (auto simp: in_keys_iff)
  then have "(k, v) \<in> set ps" by (rule map_of_SomeD)
  moreover from v assms(3) have "v = JArr xs" by (simp add: get_prop_def)
  moreover have "list_all entry_ok ps"
    using assms(1) by (simp only: no_invalid_shape_entries)
  ultimately have "entry_ok (k, JArr xs)"
    by (auto simp: list_all_iff)
  with assms(2) show ?thesis by (auto simp: entry_ok_clause)
qed

lemma clause_elements:
  assumes "or_empty (get_prop (remove_key f ps) k) = JArr xs" "xs \<noteq> []"
  shows "get_prop ps k = JArr xs \<and> k \<in> set (keys_of ps) \<and> k \<noteq> f"
proof -
  from assms have "get_prop (remove_key f ps) k = JArr xs"
    by (auto simp: or_empty_def split: if_splits)
  then have "get_prop ps k = JArr xs \<and> k \<noteq> f"
    by (auto simp: get_prop_remove_key split: if_splits)
  moreover then have "k \<in> set (keys_of ps)"
    using get_prop_absent [of k ps] by auto
  ultimately show ?thesis by simp
qed

lemma survivors_nonempty: "y \<in> set (survivors ys) \<Longrightarrow> y \<noteq> JObj []"
  by (auto simp: survivors_def has_keys_def)

lemma no_invalid_assemble:
  assumes "\<forall>y \<in> set newOr. y \<noteq> JObj [] \<and> no_invalid_shape y"
    "\<forall>y \<in> set newAnd. y \<noteq> JObj [] \<and> no_invalid_shape y"
  shows "no_invalid_shape (JObj (assemble ps f newOr newAnd))"
proof -
  have "list_all entry_ok (remove_key ''$and'' (remove_key ''$or'' (remove_key f ps)))"
    by (auto simp: list_all_iff remove_key_def entry_ok_other)
  with assms have "list_all entry_ok (assemble ps f newOr newAnd)"
    by (simp add: assemble_def entry_ok_clause)
  then show ?thesis by (simp only: no_invalid_shape_entries)
qed

lemma rfr_keeps_valid_nat:
  assumes "removeFieldReferences q f (int n) = Some r"
  shows "is_query q \<longrightarrow> no_invalid_shape q \<longrightarrow> no_invalid_shape r"
  using assms
proof (induction rule: rfr_induct)
  case (zero q)
  then show ?case by simp
next
  case (step n q ps xo yo xa ya)
  show ?case
  proof (intro impI)
    assume iq: "is_query q" and v: "no_invalid_shape q"
    from iq step have q: "q = JObj ps" by (cases q) auto
    have ok: "\<forall>y \<in> set ys. no_invalid_shape y"
      if xs: "or_empty (get_prop (remove_key f ps) k) = JArr xs" and k: "k = ''$or'' \<or> k = ''$and''"
        and l: "list_all2 (\<lambda>x y. removeFieldReferences x f (int n) = Some y \<and>
                  (is_query x \<longrightarrow> no_invalid_shape x \<longrightarrow> no_invalid_shape y)) xs ys"
      for k xs ys
    proof
      fix y assume y: "y \<in> set ys"
      with l obtain x where x: "x \<in> set xs" "is_query x \<longrightarrow> no_invalid_shape x \<longrightarrow> no_invalid_shape y"
        by (auto dest: list_all2_rangeD)
      then have ne: "xs \<noteq> []" by auto
      from is_query_clause [of ps k f] iq q k xs x have "is_query x" by auto
      moreover from clause_elements [OF xs ne] valid_get_prop [of ps k xs] v q k x
      have "no_invalid_shape x" by auto
      ultimately show "no_invalid_shape y" using x by simp
    qed
    have "\<forall>y \<in> set (survivors yo). y \<noteq> JObj [] \<and> no_invalid_shape y"
      using ok [of "''$or''" xo yo] step survivors_subset [of yo] survivors_nonempty by blast
    moreover have "\<forall>y \<in> set (survivors ya). y \<noteq> JObj [] \<and> no_invalid_shape y"
      using ok [of "''$and''" xa ya] step survivors_subset [of ya] survivors_nonempty by blast
    ultimately show "no_invalid_shape (JObj (assemble ps f (survivors yo) (survivors ya)))"
      by (rule no_invalid_assemble)
  qed
qed

lemma rfr_keeps_valid:
  "removeFieldReferences q f d = Some r \<Longrightarrow> is_query q \<Longrightarrow> no_invalid_shape q \<Longrightarrow> no_invalid_shape r"
  using rfr_keeps_valid_nat [of q f "nat d" r] rfr_int [of q f d] by simp

lemma is_query_object: "is_query q \<Longrightarrow> \<exists>ps. q = JObj ps"
  by (cases q) simp_all

lemma no_invalid_shapeI: "list_all entry_ok ps \<Longrightarrow> no_invalid_shape (JObj ps)"
  by (simp only: no_invalid_shape_entries)

lemma addOrClause_keeps_valid:
  assumes q: "is_query q" "no_invalid_shape q"
    and c: "is_query c" "no_invalid_shape c" "c \<noteq> JObj []"
  shows "\<exists>r. addOrClause q c = Some r \<and> no_invalid_shape r"
proof -
  from q(1) obtain ps where ps: "q = JObj ps" using is_query_object by blast
  from c(1) obtain cs where cs: "c = JObj cs" using is_query_object by blast
  have vps: "list_all entry_ok ps" using q(2) ps by (simp only: no_invalid_shape_entries)
  have vcs: "list_all entry_ok cs" using c(2) cs by (simp only: no_invalid_shape_entries)
  have ands: "\<exists>xs. get_prop ps ''$and'' = JArr xs
      \<and> iterate (or_empty (get_prop ps ''$and'')) = Some (clause_list ps ''$and'')
      \<and> (\<forall>x \<in> set (clause_list ps ''$and''). x \<noteq> JObj [] \<and> no_invalid_shape x)"
    if "''$and'' \<in> set (keys_of ps)"
  proof -
    from that q(1) ps obtain xs where xs: "get_prop ps ''$and'' = JArr xs"
      using is_query_get_prop by blast
    with that valid_get_prop [of ps "''$and''" xs] q(2) ps show ?thesis
      by (simp add: or_empty_def clause_list_def)
  qed
  show ?thesis
  proof (cases "''$or'' \<in> set (keys_of ps)")
    case True
    with q(1) ps obtain ors where ors: "get_prop ps ''$or'' = JArr ors"
      using is_query_get_prop by blast
    with True valid_get_prop [of ps "''$or''" ors] q(2) ps
    have vo: "ors \<noteq> [] \<and> (\<forall>x \<in> set ors. x \<noteq> JObj [] \<and> no_invalid_shape x)" by simp
    then have wrap: "no_invalid_shape (JObj [(''$or'', JArr ors)])" by (simp add: list_all_iff)
    have it: "iterate (or_empty (get_prop ps ''$and'')) = Some (clause_list ps ''$and'')
        \<and> (\<forall>x \<in> set (clause_list ps ''$and''). x \<noteq> JObj [] \<and> no_invalid_shape x)"
    proof (cases "''$and'' \<in> set (keys_of ps)")
      case True
      then show ?thesis using ands by blast
    next
      case False
      then show ?thesis by (simp add: get_prop_absent or_empty_def clause_list_def)
    qed
    then have "addOrClause q c =
       Some (JObj (put ''$and'' (JArr (clause_list ps ''$and'' @ [JObj [(''$or'', JArr ors)], c]))
                     (remove_key ''$or'' ps)))"
      using addOrClause_or [of q ps "clause_list ps ''$and''" c] ors ps by simp
    moreover have "list_all entry_ok
        (put ''$and'' (JArr (clause_list ps ''$and'' @ [JObj [(''$or'', JArr ors)], c]))
                     (remove_key ''$or'' ps))"
      using vps it wrap c by (intro list_all_put list_all_remove_key) (auto simp: entry_ok_clause)
    ultimately show ?thesis using no_invalid_shapeI by blast
  next
    case noor: False
    show ?thesis
    proof (cases "''$and'' \<in> set (keys_of ps)")
      case True
      with ands obtain xs where xs: "get_prop ps ''$and'' = JArr xs"
        "\<forall>x \<in> set (clause_list ps ''$and''). x \<noteq> JObj [] \<and> no_invalid_shape x" by blast
      then have "addOrClause q c = Some (JObj (put ''$and'' (JArr (xs @ [c])) ps))"
        using addOrClause_and [of q ps xs c] noor ps
        by (simp add: get_prop_absent remove_key_absent)
      moreover have "list_all entry_ok (put ''$and'' (JArr (xs @ [c])) ps)"
        using vps xs c by (intro list_all_put) (auto simp: entry_ok_clause clause_list_def)
      ultimately show ?thesis using no_invalid_shapeI by blast
    next
      case False
      then have "addOrClause q c = Some (JObj (spread ps cs))"
        using addOrClause_merge [of q ps c] noor ps cs
        by (simp add: get_prop_absent spread_props_def)
      moreover have "list_all entry_ok (spread ps cs)"
        using vps vcs by (rule list_all_spread)
      ultimately show ?thesis using no_invalid_shapeI by blast
    qed
  qed
qed

lemma no_invalid_within_assemble:
  assumes "\<forall>y \<in> set newOr. y \<noteq> JObj [] \<and> no_invalid_within n y"
    "\<forall>y \<in> set newAnd. y \<noteq> JObj [] \<and> no_invalid_within n y"
  shows "no_invalid_within (Suc n) (JObj (assemble ps f newOr newAnd))"
  using assms by (auto simp: assemble_def list_all_iff remove_key_def)

lemma rfr_repairs_nat:
  assumes "removeFieldReferences q f (int n) = Some r"
  shows "no_invalid_within n r"
  using assms
proof (induction rule: rfr_induct)
  case (zero q)
  then show ?case by simp
next
  case (step n q ps xo yo xa ya)
  have "\<forall>y \<in> set (survivors ys). y \<noteq> JObj [] \<and> no_invalid_within n y"
    if "list_all2 (\<lambda>x y. removeFieldReferences x f (int n) = Some y \<and> no_invalid_within n y) xs ys"
    for xs ys
    using that survivors_subset [of ys] survivors_nonempty
    by (fastforce dest: list_all2_rangeD)
  with step show ?case by (intro no_invalid_within_assemble) blast+
qed

lemma rfr_repairs:
  "removeFieldReferences q f d = Some r \<Longrightarrow> no_invalid_within (nat d) r"
  using rfr_repairs_nat [of q f "nat d" r] rfr_int [of q f d] by simp

subsection \<open>Idempotence\<close>

lemma survivors_idem: "survivors (survivors ys) = survivors ys"
  by (simp add: survivors_def)

lemma survivors_has_keys: "y \<in> set (survivors ys) \<Longrightarrow> has_keys y = Some True"
  by (simp add: survivors_def)

lemma assemble_idem:
  "assemble (assemble ps f newOr newAnd) f newOr newAnd = assemble ps f newOr newAnd"
proof -
  have "remove_key ''$and'' (remove_key ''$or'' (remove_key f (assemble ps f newOr newAnd)))
        = remove_key ''$and'' (remove_key ''$or'' (remove_key f ps))"
    by (auto simp: assemble_def remove_key_def intro!: filter_cong)
  then show ?thesis by (simp add: assemble_def)
qed

lemma or_empty_assemble:
  "or_empty (get_prop (assemble ps f newOr newAnd) ''$or'') = JArr newOr"
  "or_empty (get_prop (assemble ps f newOr newAnd) ''$and'') = JArr newAnd"
  by (simp_all add: get_prop_assemble or_empty_def)

lemma rfr_idempotent_nat:
  assumes "removeFieldReferences q f (int n) = Some r"
  shows "removeFieldReferences r f (int n) = Some r"
  using assms
proof (induction rule: rfr_induct)
  case (zero q)
  then show ?case by (simp add: rfr_zero)
next
  case (step n q ps xo yo xa ya)
  let ?so = "survivors yo" and ?sa = "survivors ya"
  let ?r = "assemble ps f ?so ?sa"
  have o: "f = ''$or'' \<longrightarrow> ?so = []"
    using step removed_clause_empty [of f ps xo] by (auto simp: survivors_def)
  have a: "f = ''$and'' \<longrightarrow> ?sa = []"
    using step removed_clause_empty [of f ps xa] by (auto simp: survivors_def)
  have rk: "remove_key f ?r = ?r" using o a by (rule remove_key_assemble)
  have same: "list_all2 (\<lambda>x y. removeFieldReferences x f (int n) = Some y) (survivors ys) (survivors ys)"
    if "list_all2 (\<lambda>x y. removeFieldReferences x f (int n) = Some y \<and>
                          removeFieldReferences y f (int n) = Some y) xs ys" for xs ys
    using that survivors_subset [of ys] by (fastforce simp: list_all2_same dest: list_all2_rangeD)
  have "removeFieldReferences (JObj ?r) f (int (Suc n))
        = Some (JObj (assemble ?r f (survivors ?so) (survivors ?sa)))"
  proof (rule rfr_SucI)
    show "own_props (JObj ?r) = Some ?r" by simp
    show "or_empty (get_prop (remove_key f ?r) ''$or'') = JArr ?so"
      by (simp add: rk or_empty_assemble)
    show "or_empty (get_prop (remove_key f ?r) ''$and'') = JArr ?sa"
      by (simp add: rk or_empty_assemble)
    show "list_all2 (\<lambda>x y. removeFieldReferences x f (int n) = Some y) ?so ?so"
      using step same by blast
    show "list_all2 (\<lambda>x y. removeFieldReferences x f (int n) = Some y) ?sa ?sa"
      using step same by blast
    show "\<forall>y \<in> set ?so. has_keys y \<noteq> None" by (simp add: survivors_has_keys)
    show "\<forall>y \<in> set ?sa. has_keys y \<noteq> None" by (simp add: survivors_has_keys)
  qed
  then show ?case by (simp only: survivors_idem assemble_idem)
qed

lemma rfr_idempotent:
  "removeFieldReferences q f d = Some r \<Longrightarrow> removeFieldReferences r f d = Some r"
  using rfr_idempotent_nat [of q f "nat d" r] rfr_int [of q f d] rfr_int [of r f d] by simp

subsection \<open>Removing an absent field\<close>

lemma struct_eq_refl: "struct_eq a a"
proof (induction a rule: measure_induct_rule [of size])
  case (less a)
  show ?case
  proof (cases a)
    case (JArr xs)
    then show ?thesis using less size_element by (simp add: list_all2_same)
  next
    case (JObj ps)
    then show ?thesis using less size_get_prop by (simp add: list_all_iff)
  qed simp_all
qed

lemma struct_eq_has_keys:
  assumes "is_query x" "x \<noteq> JObj []" "struct_eq x y"
  shows "has_keys y = Some True"
proof -
  from assms(1,2) obtain px where px: "x = JObj px" "px \<noteq> []"
    using is_query_object by blast
  with assms(3) obtain py where py: "y = JObj py" by (cases y) simp_all
  from px have "fst (hd px) \<in> set (keys_of px)" by (cases px) auto
  with assms(3) px py have "fst (hd px) \<in> set (keys_of py)" by (simp add: list_all_iff)
  then have "py \<noteq> []" by auto
  with py show ?thesis by (simp add: has_keys_def keys_of_def)
qed

lemma clause_of_query:
  assumes "is_query (JObj ps)" "k = ''$or'' \<or> k = ''$and''"
  shows "or_empty (get_prop ps k) = JArr (clause_list ps k)"
    and "k \<in> set (keys_of ps) \<Longrightarrow> get_prop ps k = JArr (clause_list ps k)"
    and "k \<notin> set (keys_of ps) \<Longrightarrow> clause_list ps k = []"
proof -
  show "k \<notin> set (keys_of ps) \<Longrightarrow> clause_list ps k = []"
    by (simp add: clause_list_def get_prop_absent)
  show in_keys: "k \<in> set (keys_of ps) \<Longrightarrow> get_prop ps k = JArr (clause_list ps k)"
    using is_query_get_prop [OF assms] by (auto simp: clause_list_def)
  show "or_empty (get_prop ps k) = JArr (clause_list ps k)"
  proof (cases "k \<in> set (keys_of ps)")
    case True
    then show ?thesis using in_keys by (simp add: or_empty_def)
  next
    case False
    then show ?thesis by (simp add: or_empty_def clause_list_def get_prop_absent)
  qed
qed

lemma struct_eq_assemble:
  assumes "f \<notin> set (keys_of ps)"
    and "''$or'' \<in> set (keys_of ps) \<longleftrightarrow> newOr \<noteq> []"
    and "''$and'' \<in> set (keys_of ps) \<longleftrightarrow> newAnd \<noteq> []"
    and "newOr \<noteq> [] \<longrightarrow> struct_eq (get_prop ps ''$or'') (JArr newOr)"
    and "newAnd \<noteq> [] \<longrightarrow> struct_eq (get_prop ps ''$and'') (JArr newAnd)"
  shows "struct_eq (JObj ps) (JObj (assemble ps f newOr newAnd))"
proof -
  have "set (keys_of (assemble ps f newOr newAnd)) = set (keys_of ps)"
    using assms(1,2,3) by (auto simp: keys_assemble)
  moreover have "struct_eq (get_prop ps k) (get_prop (assemble ps f newOr newAnd) k)"
    if "k \<in> set (keys_of ps)" for k
    using that assms by (auto simp: get_prop_assemble struct_eq_refl)
  ultimately show ?thesis by (simp add: list_all_iff)
qed

lemma rfr_absent_field_nat:
  assumes "removeFieldReferences q f (int n) = Some r"
  shows "is_query q \<longrightarrow> no_invalid_shape q \<longrightarrow> \<not> field_within n f q \<longrightarrow> struct_eq q r"
  using assms
proof (induction rule: rfr_induct)
  case (zero q)
  then show ?case by (simp add: struct_eq_refl)
next
  case (step n q ps xo yo xa ya)
  show ?case
  proof (intro impI)
    assume iq: "is_query q" and v: "no_invalid_shape q" and nf: "\<not> field_within (Suc n) f q"
    from iq step have q: "q = JObj ps" by (cases q) auto
    from nf q have f: "f \<notin> set (keys_of ps)"
      and sub: "\<forall>x \<in> set (sub_queries ps). \<not> field_within n f x"
      by (auto simp: list_ex_iff)
    have rk: "remove_key f ps = ps" using f by (rule remove_key_absent)
    have clause: "survivors ys = ys \<and> list_all2 struct_eq (clause_list ps k) ys
                  \<and> (k \<in> set (keys_of ps) \<longleftrightarrow> ys \<noteq> [])"
      if k: "k = ''$or'' \<or> k = ''$and''"
        and xs: "or_empty (get_prop (remove_key f ps) k) = JArr xs"
        and l: "list_all2 (\<lambda>x y. removeFieldReferences x f (int n) = Some y \<and>
                  (is_query x \<longrightarrow> no_invalid_shape x \<longrightarrow> \<not> field_within n f x \<longrightarrow> struct_eq x y)) xs ys"
      for k xs ys
    proof -
      have c: "or_empty (get_prop ps k) = JArr (clause_list ps k)"
        using iq q k clause_of_query(1) [of ps k] by simp
      with xs rk have xs_eq: "xs = clause_list ps k" by simp
      have elem: "is_query x \<and> no_invalid_shape x \<and> x \<noteq> JObj [] \<and> \<not> field_within n f x"
        if "x \<in> set xs" for x
      proof -
        from that have ne: "xs \<noteq> []" by auto
        from clause_elements [OF xs ne] have g: "get_prop ps k = JArr xs" "k \<in> set (keys_of ps)"
          by simp_all
        from valid_get_prop [of ps k xs] v q k g that
        have "x \<noteq> JObj [] \<and> no_invalid_shape x" by simp
        moreover from is_query_clause [of ps k f] iq q k xs that have "is_query x" by auto
        moreover from that xs_eq k sub have "\<not> field_within n f x"
          by (auto simp: sub_queries_def)
        ultimately show ?thesis by simp
      qed
      have eqs: "list_all2 (\<lambda>x y. struct_eq x y \<and> has_keys y = Some True) xs ys"
      proof (rule list.rel_mono_strong [OF l])
        fix x y
        assume "x \<in> set xs"
          and "removeFieldReferences x f (int n) = Some y \<and>
                  (is_query x \<longrightarrow> no_invalid_shape x \<longrightarrow> \<not> field_within n f x \<longrightarrow> struct_eq x y)"
        with elem [of x] have "is_query x" "x \<noteq> JObj []" "struct_eq x y" by simp_all
        then show "struct_eq x y \<and> has_keys y = Some True"
          using struct_eq_has_keys by blast
      qed
      then have "list_all2 struct_eq xs ys" by (auto elim: list_all2_mono)
      moreover from eqs have "\<forall>y \<in> set ys. has_keys y = Some True"
        by (auto dest: list_all2_rangeD)
      then have "survivors ys = ys" by (simp add: survivors_def)
      moreover have "k \<in> set (keys_of ps) \<longleftrightarrow> ys \<noteq> []"
      proof
        assume kin: "k \<in> set (keys_of ps)"
        with iq q k have "get_prop ps k = JArr (clause_list ps k)" by (simp add: clause_of_query(2))
        with valid_get_prop [of ps k "clause_list ps k"] v q k kin have "xs \<noteq> []"
          by (simp add: xs_eq)
        with eqs show "ys \<noteq> []" by auto
      next
        assume "ys \<noteq> []"
        with eqs have "xs \<noteq> []" by auto
        with clause_elements [OF xs] show "k \<in> set (keys_of ps)" by simp
      qed
      ultimately show ?thesis by (simp add: xs_eq)
    qed
    from clause [of "''$or''" xo yo] step
    have o: "survivors yo = yo" "list_all2 struct_eq (clause_list ps ''$or'') yo"
      "''$or'' \<in> set (keys_of ps) \<longleftrightarrow> yo \<noteq> []" by simp_all
    from clause [of "''$and''" xa ya] step
    have a: "survivors ya = ya" "list_all2 struct_eq (clause_list ps ''$and'') ya"
      "''$and'' \<in> set (keys_of ps) \<longleftrightarrow> ya \<noteq> []" by simp_all
    have "struct_eq (JObj ps) (JObj (assemble ps f yo ya))"
    proof (rule struct_eq_assemble)
      show "f \<notin> set (keys_of ps)" by (rule f)
      show "''$or'' \<in> set (keys_of ps) \<longleftrightarrow> yo \<noteq> []" by (rule o(3))
      show "''$and'' \<in> set (keys_of ps) \<longleftrightarrow> ya \<noteq> []" by (rule a(3))
      show "yo \<noteq> [] \<longrightarrow> struct_eq (get_prop ps ''$or'') (JArr yo)"
        using o iq q by (simp add: clause_of_query(2))
      show "ya \<noteq> [] \<longrightarrow> struct_eq (get_prop ps ''$and'') (JArr ya)"
        using a iq q by (simp add: clause_of_query(2))
    qed
    then show "struct_eq q (JObj (assemble ps f (survivors yo) (survivors ya)))"
      by (simp only: q o(1) a(1))
  qed
qed

lemma rfr_absent_field:
  "removeFieldReferences q f d = Some r \<Longrightarrow> is_query q \<Longrightarrow> no_invalid_shape q \<Longrightarrow>
   \<not> field_within (nat d) f q \<Longrightarrow> struct_eq q r"
  using rfr_absent_field_nat [of q f "nat d" r] rfr_int [of q f d] by simp

subsection \<open>Key order\<close>

lemma keys_put_new:
  "k \<notin> set (keys_of ps) \<Longrightarrow> \<not> is_array_index k \<Longrightarrow> keys_of (put k v ps) = keys_of ps @ [k]"
  by (simp add: put_new)

lemma keys_spread:
  assumes "distinct (keys_of cs)" "\<forall>k \<in> set (keys_of cs). \<not> is_array_index k"
  shows "keys_of (spread ps cs) = keys_of ps @ filter (\<lambda>k. k \<notin> set (keys_of ps)) (keys_of cs)"
  using assms
proof (induction cs arbitrary: ps)
  case Nil
  then show ?case by (simp add: spread_def)
next
  case (Cons c cs)
  obtain k v where c: "c = (k, v)" by (cases c)
  have sp: "spread ps (c # cs) = spread (put k v ps) cs" by (simp add: spread_def c)
  from Cons.prems c have d: "distinct (keys_of cs)" "\<forall>k \<in> set (keys_of cs). \<not> is_array_index k"
    "k \<notin> set (keys_of cs)" "\<not> is_array_index k" by simp_all
  show ?case
  proof (cases "k \<in> set (keys_of ps)")
    case True
    then show ?thesis
      using Cons.IH [OF d(1,2), of "put k v ps"] sp c
      by (simp add: keys_put_old)
  next
    case False
    have "filter (\<lambda>k'. k' \<noteq> k \<and> k' \<notin> set (keys_of ps)) (keys_of cs)
          = filter (\<lambda>k'. k' \<notin> set (keys_of ps)) (keys_of cs)"
      using d(3) by (auto intro: filter_cong)
    with False show ?thesis
      using Cons.IH [OF d(1,2), of "put k v ps"] sp c d(4)
      by (simp add: keys_put_new)
  qed
qed

lemma rfr_pos_shape:
  assumes "0 < d" "removeFieldReferences (JObj ps) f d = Some r"
  shows "\<exists>newOr newAnd. r = JObj (assemble ps f newOr newAnd)"
  using assms by (auto simp: rfr_pos split: option.splits)

lemma keys_assemble_order:
  "keys_of (assemble ps f newOr newAnd) =
     filter (\<lambda>k. k \<noteq> f \<and> k \<noteq> ''$or'' \<and> k \<noteq> ''$and'') (keys_of ps)
       @ filter (\<lambda>k. k \<in> set (keys_of (assemble ps f newOr newAnd))) [''$or'', ''$and'']"
  by (auto simp: keys_assemble)

subsection \<open>The test cases of the repository\<close>

text \<open>
  The model returns what the repository's tests expect (their \<^verbatim>\<open>toEqual\<close> compares up to
  the order of keys; the results are given here in the order the code builds them).
\<close>

lemma test_add_no_or:
  "addOrClause (JObj [(''foo'', JStr ''bar'')])
     (JObj [(''$or'', JArr [JObj [(''myField'', JStr ''value'')], JObj [(''myField'', JNull)]])])
   = Some (JObj [(''foo'', JStr ''bar''),
                 (''$or'', JArr [JObj [(''myField'', JStr ''value'')], JObj [(''myField'', JNull)]])])"
  by code_simp

lemma test_add_existing_or:
  "addOrClause
     (JObj [(''$or'', JArr [JObj [(''foo'', JStr ''bar'')],
                            JObj [(''foo'', JObj [(''$exists'', JBool False)])]])])
     (JObj [(''$or'', JArr [JObj [(''myField'', JStr ''value'')], JObj [(''myField'', JNull)]])])
   = Some (JObj [(''$and'', JArr
        [JObj [(''$or'', JArr [JObj [(''foo'', JStr ''bar'')],
                               JObj [(''foo'', JObj [(''$exists'', JBool False)])]])],
         JObj [(''$or'', JArr [JObj [(''myField'', JStr ''value'')], JObj [(''myField'', JNull)]])]])])"
  by code_simp

lemma test_add_existing_and:
  "addOrClause
     (JObj [(''$and'', JArr [JObj [(''foo'', JStr ''bar'')], JObj [(''bar'', JStr ''baz'')]])])
     (JObj [(''$or'', JArr [JObj [(''myField'', JStr ''value'')], JObj [(''myField'', JNull)]])])
   = Some (JObj [(''$and'', JArr
        [JObj [(''foo'', JStr ''bar'')], JObj [(''bar'', JStr ''baz'')],
         JObj [(''$or'', JArr [JObj [(''myField'', JStr ''value'')], JObj [(''myField'', JNull)]])]])])"
  by code_simp

lemma test_remove_top_level:
  "removeFieldReferences_default (JObj [(''hello'', JStr ''value'')]) ''hello'' = Some (JObj [])"
  by code_simp

lemma test_remove_in_or:
  "removeFieldReferences_default
     (JObj [(''$or'', JArr [JObj [(''hello'', JStr ''value''), (''otherField'', JStr ''not-related'')],
                            JObj [(''hello'', JStr ''othervalue''),
                                  (''otherField'', JStr ''even-less-related'')]])]) ''hello''
   = Some (JObj [(''$or'', JArr [JObj [(''otherField'', JStr ''not-related'')],
                                 JObj [(''otherField'', JStr ''even-less-related'')]])])"
  by code_simp

lemma test_remove_empty_or_entry:
  "removeFieldReferences_default
     (JObj [(''$or'', JArr [JObj [(''hello'', JStr ''value'')],
                            JObj [(''otherField'', JStr ''not-related'')]])]) ''hello''
   = Some (JObj [(''$or'', JArr [JObj [(''otherField'', JStr ''not-related'')]])])"
  by code_simp

lemma test_remove_in_and:
  "removeFieldReferences_default
     (JObj [(''$and'', JArr [JObj [(''hello'', JStr ''value''), (''otherField'', JStr ''value'')],
                             JObj [(''hello'', JStr ''other-value''), (''otherField'', JStr ''value'')]])])
     ''hello''
   = Some (JObj [(''$and'', JArr [JObj [(''otherField'', JStr ''value'')],
                                  JObj [(''otherField'', JStr ''value'')]])])"
  by code_simp

lemma test_remove_whole_and:
  "removeFieldReferences_default
     (JObj [(''foo'', JStr ''bar''),
            (''$and'', JArr [JObj [(''hello'', JStr ''value'')], JObj [(''hello'', JStr ''other-value'')]])])
     ''hello''
   = Some (JObj [(''foo'', JStr ''bar'')])"
  by code_simp

lemma test_remove_nested_or:
  "removeFieldReferences_default
     (JObj [(''$and'', JArr [JObj [(''$or'', JArr [JObj [(''hello'', JStr ''value'')],
                                                   JObj [(''hello'', JNull)]])],
                             JObj [(''otherField'', JStr ''not-related'')]])]) ''hello''
   = Some (JObj [(''$and'', JArr [JObj [(''otherField'', JStr ''not-related'')]])])"
  by code_simp

section \<open>The claims\<close>

text \<open>
  C1. For a query document with a top-level \<^verbatim>\<open>$or\<close> key and any \<^verbatim>\<open>orClause\<close>,
  \<^verbatim>\<open>addOrClause\<close> returns the query without its \<^verbatim>\<open>$or\<close> key and with \<^verbatim>\<open>$and\<close> set to the
  entries that \<^verbatim>\<open>$and\<close> had (none when it was absent), followed by the document
  \<^verbatim>\<open>{$or: <the original $or array>}\<close>, followed by \<^verbatim>\<open>orClause\<close> as the last entry; every
  other top-level key keeps its value.
\<close>

theorem addOrClause_existing_or:
  assumes "is_query (JObj ps)" and "''$or'' \<in> set (keys_of ps)"
  shows "\<exists>ors res. get_prop ps ''$or'' = JArr ors
     \<and> addOrClause (JObj ps) orClause = Some (JObj res)
     \<and> res = put ''$and'' (JArr (clause_list ps ''$and'' @ [JObj [(''$or'', JArr ors)], orClause]))
               (remove_key ''$or'' ps)
     \<and> ''$or'' \<notin> set (keys_of res)
     \<and> get_prop res ''$and'' = JArr (clause_list ps ''$and'' @ [JObj [(''$or'', JArr ors)], orClause])
     \<and> (\<forall>k. k \<noteq> ''$or'' \<and> k \<noteq> ''$and'' \<longrightarrow> map_of res k = map_of ps k)"
proof -
  from assms obtain ors where ors: "get_prop ps ''$or'' = JArr ors"
    using is_query_get_prop by blast
  have "iterate (or_empty (get_prop ps ''$and'')) = Some (clause_list ps ''$and'')"
  proof (cases "''$and'' \<in> set (keys_of ps)")
    case True
    with assms(1) obtain xs where "get_prop ps ''$and'' = JArr xs"
      using is_query_get_prop by blast
    then show ?thesis by (simp add: or_empty_def clause_list_def)
  next
    case False
    then show ?thesis by (simp add: get_prop_absent or_empty_def clause_list_def)
  qed
  with ors have "addOrClause (JObj ps) orClause =
     Some (JObj (put ''$and'' (JArr (clause_list ps ''$and'' @ [JObj [(''$or'', JArr ors)], orClause]))
                   (remove_key ''$or'' ps)))"
    using addOrClause_or [of "JObj ps" ps "clause_list ps ''$and''" orClause] by simp
  with ors show ?thesis
    by (simp add: set_keys_put keys_remove_key get_prop_put map_of_put map_of_remove_key)
qed

theorem addOrClause_existing_or_witness:
  "is_query (JObj [(''$or'', JArr [JObj [(''hello'', JStr ''world'')]]),
                   (''$and'', JArr [JObj [(''foo'', JStr ''bar'')], JObj [(''bar'', JStr ''baz'')]])])
   \<and> ''$or'' \<in> set (keys_of [(''$or'', JArr [JObj [(''hello'', JStr ''world'')]]),
                   (''$and'', JArr [JObj [(''foo'', JStr ''bar'')], JObj [(''bar'', JStr ''baz'')]])])
   \<and> addOrClause
        (JObj [(''$or'', JArr [JObj [(''hello'', JStr ''world'')]]),
               (''$and'', JArr [JObj [(''foo'', JStr ''bar'')], JObj [(''bar'', JStr ''baz'')]])])
        (JObj [(''$or'', JArr [JObj [(''myField'', JStr ''value'')], JObj [(''myField'', JNull)]])])
      = Some (JObj [(''$and'', JArr [JObj [(''foo'', JStr ''bar'')], JObj [(''bar'', JStr ''baz'')],
                      JObj [(''$or'', JArr [JObj [(''hello'', JStr ''world'')]])],
                      JObj [(''$or'', JArr [JObj [(''myField'', JStr ''value'')],
                                            JObj [(''myField'', JNull)]])]])])"
  using addOrClause_existing_or
    [of "[(''$or'', JArr [JObj [(''hello'', JStr ''world'')]]),
          (''$and'', JArr [JObj [(''foo'', JStr ''bar'')], JObj [(''bar'', JStr ''baz'')]])]"
        "JObj [(''$or'', JArr [JObj [(''myField'', JStr ''value'')], JObj [(''myField'', JNull)]])]"]
  by (simp add: get_prop_def clause_list_def put_def remove_key_def)

text \<open>
  C2. The claim is made for every \<^verbatim>\<open>maxDepth >= 0\<close>: the result is to have no key equal to
  the field name at the top level. With \<^verbatim>\<open>maxDepth = 0\<close> the guard returns the query as it
  is, with the field still at its top level.
\<close>

theorem field_kept_at_depth_bound_counterexample:
  "removeFieldReferences (JObj [(''hello'', JStr ''value'')]) ''hello'' 0
     = Some (JObj [(''hello'', JStr ''value'')])
   \<and> ''hello'' \<in> set (keys_of [(''hello'', JStr ''value'')])"
  by code_simp

text \<open>
  C2, as amended. For a query document and \<^verbatim>\<open>maxDepth >= 1\<close>, the result of
  \<^verbatim>\<open>removeFieldReferences\<close> has no key equal to the field name at the top level nor in any
  sub-document nested inside \<^verbatim>\<open>$or\<close> and \<^verbatim>\<open>$and\<close> arrays that is reachable within
  \<^verbatim>\<open>maxDepth\<close> recursive steps, the call on the query being the first step: these are the
  documents at a nesting level below \<^verbatim>\<open>maxDepth\<close>, the top level being level 0. Deeper
  occurrences may remain.
\<close>

theorem removes_field_below_depth:
  assumes "is_query q" and "1 \<le> maxDepth"
  shows "\<exists>r. removeFieldReferences q f maxDepth = Some r \<and> \<not> field_within (nat maxDepth) f r"
  using assms rfr_total [of q f maxDepth] rfr_removes_field [of q f maxDepth] by auto

theorem removes_field_below_depth_witness:
  "is_query (JObj [(''hello'', JNum 1),
                   (''$or'', JArr [JObj [(''hello'', JNum 2), (''x'', JNum 3),
                                         (''$and'', JArr [JObj [(''hello'', JNum 4)]])]])])
   \<and> (1::int) \<le> 2
   \<and> removeFieldReferences
        (JObj [(''hello'', JNum 1),
               (''$or'', JArr [JObj [(''hello'', JNum 2), (''x'', JNum 3),
                                     (''$and'', JArr [JObj [(''hello'', JNum 4)]])]])]) ''hello'' 2
      = Some (JObj [(''$or'', JArr [JObj [(''x'', JNum 3), (''$and'', JArr [JObj [(''hello'', JNum 4)]])]])])
   \<and> \<not> field_within (nat 2) ''hello''
        (JObj [(''$or'', JArr [JObj [(''x'', JNum 3), (''$and'', JArr [JObj [(''hello'', JNum 4)]])]])])"
proof -
  have e: "removeFieldReferences
        (JObj [(''hello'', JNum 1),
               (''$or'', JArr [JObj [(''hello'', JNum 2), (''x'', JNum 3),
                                     (''$and'', JArr [JObj [(''hello'', JNum 4)]])]])]) ''hello'' 2
      = Some (JObj [(''$or'', JArr [JObj [(''x'', JNum 3), (''$and'', JArr [JObj [(''hello'', JNum 4)]])]])])"
    by code_simp
  have q: "is_query (JObj [(''hello'', JNum 1),
                   (''$or'', JArr [JObj [(''hello'', JNum 2), (''x'', JNum 3),
                                         (''$and'', JArr [JObj [(''hello'', JNum 4)]])]])])"
    by simp
  from removes_field_below_depth [OF q, of 2 "''hello''"] e q show ?thesis by simp
qed

text \<open>
  C3. The claim is made for all inputs whatsoever. \<^verbatim>\<open>addOrClause\<close> never looks for empty
  arrays or empty documents: it merges an \<^verbatim>\<open>orClause\<close> \<^verbatim>\<open>{$or: []}\<close> as it is and appends an
  empty \<^verbatim>\<open>orClause\<close> to \<^verbatim>\<open>$and\<close>. \<^verbatim>\<open>removeFieldReferences\<close> returns the documents at level
  \<^verbatim>\<open>maxDepth\<close> as they are, with an empty \<^verbatim>\<open>$and\<close> array if they have one.
\<close>

theorem invalid_shapes_counterexample:
  "addOrClause (JObj [(''a'', JNum 1)]) (JObj [(''$or'', JArr [])])
     = Some (JObj [(''a'', JNum 1), (''$or'', JArr [])])
   \<and> \<not> no_invalid_shape (JObj [(''a'', JNum 1), (''$or'', JArr [])])
   \<and> addOrClause (JObj [(''$and'', JArr [JObj [(''a'', JNum 1)]])]) (JObj [])
     = Some (JObj [(''$and'', JArr [JObj [(''a'', JNum 1)], JObj []])])
   \<and> \<not> no_invalid_shape (JObj [(''$and'', JArr [JObj [(''a'', JNum 1)], JObj []])])
   \<and> removeFieldReferences (JObj [(''$or'', JArr [JObj [(''$and'', JArr [])]])]) ''hello'' 1
     = Some (JObj [(''$or'', JArr [JObj [(''$and'', JArr [])]])])
   \<and> \<not> no_invalid_shape (JObj [(''$or'', JArr [JObj [(''$and'', JArr [])]])])"
  by code_simp

text \<open>
  C3, as amended. For every query document, the result of \<^verbatim>\<open>removeFieldReferences\<close> has no
  \<^verbatim>\<open>$or\<close> or \<^verbatim>\<open>$and\<close> key mapped to an empty array and no empty document in such an array
  at the nesting levels below \<^verbatim>\<open>maxDepth\<close>, and at no level at all when the query has none.
  The result of \<^verbatim>\<open>addOrClause\<close> has none when the query has none and \<^verbatim>\<open>orClause\<close> is a
  query document that has none and is not itself empty.
\<close>

theorem valid_shapes_preserved:
  "(is_query q \<longrightarrow>
      (\<exists>r. removeFieldReferences q f maxDepth = Some r
         \<and> no_invalid_within (nat maxDepth) r
         \<and> (no_invalid_shape q \<longrightarrow> no_invalid_shape r)))
   \<and> (is_query q \<and> no_invalid_shape q \<and> is_query orClause \<and> no_invalid_shape orClause
        \<and> orClause \<noteq> JObj [] \<longrightarrow>
      (\<exists>r. addOrClause q orClause = Some r \<and> no_invalid_shape r))"
  using rfr_total [of q f maxDepth] rfr_keeps_valid [of q f maxDepth]
    rfr_repairs [of q f maxDepth] addOrClause_keeps_valid [of q orClause]
  by auto

theorem valid_shapes_preserved_witness:
  "is_query (JObj [(''foo'', JStr ''bar''),
                   (''$and'', JArr [JObj [(''hello'', JStr ''value'')], JObj [(''hello'', JStr ''other'')]])])
   \<and> no_invalid_shape (JObj [(''foo'', JStr ''bar''),
                   (''$and'', JArr [JObj [(''hello'', JStr ''value'')], JObj [(''hello'', JStr ''other'')]])])
   \<and> removeFieldReferences (JObj [(''foo'', JStr ''bar''),
                   (''$and'', JArr [JObj [(''hello'', JStr ''value'')], JObj [(''hello'', JStr ''other'')]])])
        ''hello'' 5 = Some (JObj [(''foo'', JStr ''bar'')])
   \<and> no_invalid_within (nat 5) (JObj [(''foo'', JStr ''bar'')])
   \<and> no_invalid_shape (JObj [(''foo'', JStr ''bar'')])
   \<and> is_query (JObj [(''$or'', JArr [JObj [(''myField'', JNull)]])])
   \<and> no_invalid_shape (JObj [(''$or'', JArr [JObj [(''myField'', JNull)]])])
   \<and> JObj [(''$or'', JArr [JObj [(''myField'', JNull)]])] \<noteq> JObj []
   \<and> addOrClause (JObj [(''foo'', JStr ''bar''),
                   (''$and'', JArr [JObj [(''hello'', JStr ''value'')], JObj [(''hello'', JStr ''other'')]])])
         (JObj [(''$or'', JArr [JObj [(''myField'', JNull)]])])
       = Some (JObj [(''foo'', JStr ''bar''),
                   (''$and'', JArr [JObj [(''hello'', JStr ''value'')], JObj [(''hello'', JStr ''other'')],
                                    JObj [(''$or'', JArr [JObj [(''myField'', JNull)]])]])])
   \<and> no_invalid_shape (JObj [(''foo'', JStr ''bar''),
                   (''$and'', JArr [JObj [(''hello'', JStr ''value'')], JObj [(''hello'', JStr ''other'')],
                                    JObj [(''$or'', JArr [JObj [(''myField'', JNull)]])]])])"
proof -
  have e: "removeFieldReferences (JObj [(''foo'', JStr ''bar''),
                   (''$and'', JArr [JObj [(''hello'', JStr ''value'')], JObj [(''hello'', JStr ''other'')]])])
        ''hello'' 5 = Some (JObj [(''foo'', JStr ''bar'')])"
    by code_simp
  have a: "addOrClause (JObj [(''foo'', JStr ''bar''),
                   (''$and'', JArr [JObj [(''hello'', JStr ''value'')], JObj [(''hello'', JStr ''other'')]])])
         (JObj [(''$or'', JArr [JObj [(''myField'', JNull)]])])
       = Some (JObj [(''foo'', JStr ''bar''),
                   (''$and'', JArr [JObj [(''hello'', JStr ''value'')], JObj [(''hello'', JStr ''other'')],
                                    JObj [(''$or'', JArr [JObj [(''myField'', JNull)]])]])])"
    by code_simp
  from valid_shapes_preserved [of "JObj [(''foo'', JStr ''bar''),
                   (''$and'', JArr [JObj [(''hello'', JStr ''value'')], JObj [(''hello'', JStr ''other'')]])]"
      "''hello''" 5 "JObj [(''$or'', JArr [JObj [(''myField'', JNull)]])]"] e a
  show ?thesis by simp
qed

text \<open>
  C4. Removal is idempotent at the default depth: for a query document \<open>q\<close> and a field
  name \<open>f\<close>, \<^verbatim>\<open>removeFieldReferences(removeFieldReferences(q, f), f)\<close> equals
  \<^verbatim>\<open>removeFieldReferences(q, f)\<close>.
\<close>

theorem removal_is_idempotent:
  assumes "is_query q"
  shows "\<exists>r. removeFieldReferences_default q f = Some r \<and> removeFieldReferences_default r f = Some r"
  using assms rfr_total [of q f 5] rfr_idempotent [of q f 5]
  by (auto simp: removeFieldReferences_default_def)

theorem removal_is_idempotent_witness:
  "is_query (JObj [(''$and'', JArr [JObj [(''$or'', JArr [JObj [(''hello'', JStr ''value'')],
                                                          JObj [(''hello'', JNull)]])],
                                    JObj [(''otherField'', JStr ''x''), (''hello'', JNum 1)]])])
   \<and> removeFieldReferences_default
        (JObj [(''$and'', JArr [JObj [(''$or'', JArr [JObj [(''hello'', JStr ''value'')],
                                                      JObj [(''hello'', JNull)]])],
                                JObj [(''otherField'', JStr ''x''), (''hello'', JNum 1)]])]) ''hello''
      = Some (JObj [(''$and'', JArr [JObj [(''otherField'', JStr ''x'')]])])
   \<and> removeFieldReferences_default (JObj [(''$and'', JArr [JObj [(''otherField'', JStr ''x'')]])]) ''hello''
      = Some (JObj [(''$and'', JArr [JObj [(''otherField'', JStr ''x'')]])])"
proof -
  have e: "removeFieldReferences_default
        (JObj [(''$and'', JArr [JObj [(''$or'', JArr [JObj [(''hello'', JStr ''value'')],
                                                      JObj [(''hello'', JNull)]])],
                                JObj [(''otherField'', JStr ''x''), (''hello'', JNum 1)]])]) ''hello''
      = Some (JObj [(''$and'', JArr [JObj [(''otherField'', JStr ''x'')]])])"
    by code_simp
  from removal_is_idempotent [of "JObj [(''$and'', JArr [JObj [(''$or'', JArr [JObj [(''hello'', JStr ''value'')],
                                                      JObj [(''hello'', JNull)]])],
                                JObj [(''otherField'', JStr ''x''), (''hello'', JNum 1)]])]" "''hello''"] e
  show ?thesis by simp
qed

text \<open>
  C5. When \<^verbatim>\<open>maxDepth\<close> is zero or negative, \<^verbatim>\<open>removeFieldReferences\<close> returns the query
  exactly as it was given, whatever the query and the field name: nothing is removed, not
  even the field at the top level.
\<close>

theorem depth_bound_passthrough:
  "maxDepth \<le> 0 \<Longrightarrow> removeFieldReferences q f maxDepth = Some q"
  by (simp add: removeFieldReferences.simps)

theorem depth_bound_passthrough_witness:
  "(0::int) \<le> 0 \<and>
   removeFieldReferences (JObj [(''hello'', JStr ''value'')]) ''hello'' 0
     = Some (JObj [(''hello'', JStr ''value'')])"
  using depth_bound_passthrough [of 0 "JObj [(''hello'', JStr ''value'')]" "''hello''"] by simp

text \<open>
  C6. \<^verbatim>\<open>addOrClause\<close> looks at the query only, never at \<^verbatim>\<open>orClause\<close>. For a query
  document without \<^verbatim>\<open>$or\<close> and with \<^verbatim>\<open>$and\<close>, the result is the query with \<^verbatim>\<open>orClause\<close>
  appended as the last element of its \<^verbatim>\<open>$and\<close> array. For a query with neither key the
  result is the shallow merge of the query and \<^verbatim>\<open>orClause\<close>, where a key of \<^verbatim>\<open>orClause\<close>
  takes precedence over the same key of the query. Both hold for every value of
  \<^verbatim>\<open>orClause\<close>, with or without a \<^verbatim>\<open>$or\<close> key (an object lists each of its keys once).
\<close>

theorem addOrClause_branches_on_query:
  "(is_query (JObj ps) \<and> ''$or'' \<notin> set (keys_of ps) \<and> ''$and'' \<in> set (keys_of ps) \<longrightarrow>
      (\<exists>ands res. get_prop ps ''$and'' = JArr ands
         \<and> addOrClause (JObj ps) orClause = Some (JObj res)
         \<and> res = put ''$and'' (JArr (ands @ [orClause])) ps
         \<and> keys_of res = keys_of ps
         \<and> get_prop res ''$and'' = JArr (ands @ [orClause])
         \<and> (\<forall>k. k \<noteq> ''$and'' \<longrightarrow> map_of res k = map_of ps k)))
   \<and> (''$or'' \<notin> set (keys_of ps) \<and> ''$and'' \<notin> set (keys_of ps)
        \<and> distinct (keys_of (spread_props orClause)) \<longrightarrow>
      (\<exists>res. addOrClause (JObj ps) orClause = Some (JObj res)
         \<and> res = spread ps (spread_props orClause)
         \<and> (\<forall>k. map_of res k =
               (case map_of (spread_props orClause) k of
                  Some v \<Rightarrow> Some v
                | None \<Rightarrow> map_of ps k))))"
proof (intro conjI impI)
  assume h: "is_query (JObj ps) \<and> ''$or'' \<notin> set (keys_of ps) \<and> ''$and'' \<in> set (keys_of ps)"
  then obtain ands where ands: "get_prop ps ''$and'' = JArr ands"
    using is_query_get_prop by blast
  with h have "addOrClause (JObj ps) orClause = Some (JObj (put ''$and'' (JArr (ands @ [orClause])) ps))"
    using addOrClause_and [of "JObj ps" ps ands orClause]
    by (simp add: get_prop_absent remove_key_absent)
  with h ands show "\<exists>ands res. get_prop ps ''$and'' = JArr ands
         \<and> addOrClause (JObj ps) orClause = Some (JObj res)
         \<and> res = put ''$and'' (JArr (ands @ [orClause])) ps
         \<and> keys_of res = keys_of ps
         \<and> get_prop res ''$and'' = JArr (ands @ [orClause])
         \<and> (\<forall>k. k \<noteq> ''$and'' \<longrightarrow> map_of res k = map_of ps k)"
    by (simp add: keys_put_old get_prop_put map_of_put)
next
  assume h: "''$or'' \<notin> set (keys_of ps) \<and> ''$and'' \<notin> set (keys_of ps)
        \<and> distinct (keys_of (spread_props orClause))"
  then have "addOrClause (JObj ps) orClause = Some (JObj (spread ps (spread_props orClause)))"
    using addOrClause_merge [of "JObj ps" ps orClause] by (simp add: get_prop_absent)
  moreover have "map_of (spread ps (spread_props orClause)) k =
               (case map_of (spread_props orClause) k of
                  Some v \<Rightarrow> Some v
                | None \<Rightarrow> map_of ps k)" for k
    using h by (simp add: map_of_spread map_of_rev_distinct keys_of_def map_add_def)
  ultimately show "\<exists>res. addOrClause (JObj ps) orClause = Some (JObj res)
         \<and> res = spread ps (spread_props orClause)
         \<and> (\<forall>k. map_of res k =
               (case map_of (spread_props orClause) k of
                  Some v \<Rightarrow> Some v
                | None \<Rightarrow> map_of ps k))"
    by simp
qed

theorem addOrClause_branches_on_query_witness:
  "(is_query (JObj [(''$and'', JArr [JObj [(''foo'', JStr ''bar'')]]), (''a'', JNum 1)])
    \<and> ''$or'' \<notin> set (keys_of [(''$and'', JArr [JObj [(''foo'', JStr ''bar'')]]), (''a'', JNum 1)])
    \<and> ''$and'' \<in> set (keys_of [(''$and'', JArr [JObj [(''foo'', JStr ''bar'')]]), (''a'', JNum 1)])
    \<and> addOrClause (JObj [(''$and'', JArr [JObj [(''foo'', JStr ''bar'')]]), (''a'', JNum 1)])
                   (JObj [(''b'', JNum 2)])
        = Some (JObj [(''$and'', JArr [JObj [(''foo'', JStr ''bar'')], JObj [(''b'', JNum 2)]]),
                      (''a'', JNum 1)]))
   \<and> (''$or'' \<notin> set (keys_of [(''foo'', JStr ''bar''), (''a'', JNum 1)])
    \<and> ''$and'' \<notin> set (keys_of [(''foo'', JStr ''bar''), (''a'', JNum 1)])
    \<and> distinct (keys_of (spread_props (JObj [(''a'', JNum 2), (''b'', JNum 3)])))
    \<and> addOrClause (JObj [(''foo'', JStr ''bar''), (''a'', JNum 1)])
                   (JObj [(''a'', JNum 2), (''b'', JNum 3)])
        = Some (JObj [(''foo'', JStr ''bar''), (''a'', JNum 2), (''b'', JNum 3)]))"
  using addOrClause_branches_on_query
      [of "[(''$and'', JArr [JObj [(''foo'', JStr ''bar'')]]), (''a'', JNum 1)]" "JObj [(''b'', JNum 2)]"]
    addOrClause_branches_on_query
      [of "[(''foo'', JStr ''bar''), (''a'', JNum 1)]" "JObj [(''a'', JNum 2), (''b'', JNum 3)]"]
  by (simp add: get_prop_def put_def spread_def spread_props_def is_array_index_def is_digit_def)

text \<open>
  C7. Removing an absent field changes nothing: for a structurally valid query document
  (no empty \<^verbatim>\<open>$or\<close> or \<^verbatim>\<open>$and\<close> array, no empty document in one) in which the field name is
  no key at any of the levels that a call with \<^verbatim>\<open>maxDepth\<close> rewrites, the result is
  structurally equal to the query. The result lists \<^verbatim>\<open>$or\<close> and \<^verbatim>\<open>$and\<close> after the other
  keys, so the equality is the one up to the order of keys.
\<close>

theorem absent_field_is_noop:
  assumes "is_query q" and "no_invalid_shape q" and "\<not> field_within (nat maxDepth) f q"
  shows "\<exists>r. removeFieldReferences q f maxDepth = Some r \<and> struct_eq q r"
  using assms rfr_total [of q f maxDepth] rfr_absent_field [of q f maxDepth] by auto

theorem absent_field_is_noop_witness:
  "is_query (JObj [(''$or'', JArr [JObj [(''a'', JNum 1), (''$and'', JArr [JObj [(''hello'', JNull)]])]]),
                   (''b'', JNum 2)])
   \<and> no_invalid_shape (JObj [(''$or'', JArr [JObj [(''a'', JNum 1), (''$and'', JArr [JObj [(''hello'', JNull)]])]]),
                   (''b'', JNum 2)])
   \<and> \<not> field_within (nat 2) ''hello''
        (JObj [(''$or'', JArr [JObj [(''a'', JNum 1), (''$and'', JArr [JObj [(''hello'', JNull)]])]]),
                   (''b'', JNum 2)])
   \<and> removeFieldReferences
        (JObj [(''$or'', JArr [JObj [(''a'', JNum 1), (''$and'', JArr [JObj [(''hello'', JNull)]])]]),
                   (''b'', JNum 2)]) ''hello'' 2
      = Some (JObj [(''b'', JNum 2),
                    (''$or'', JArr [JObj [(''a'', JNum 1), (''$and'', JArr [JObj [(''hello'', JNull)]])]])])
   \<and> struct_eq
        (JObj [(''$or'', JArr [JObj [(''a'', JNum 1), (''$and'', JArr [JObj [(''hello'', JNull)]])]]),
                   (''b'', JNum 2)])
        (JObj [(''b'', JNum 2),
                    (''$or'', JArr [JObj [(''a'', JNum 1), (''$and'', JArr [JObj [(''hello'', JNull)]])]])])"
proof -
  have e: "removeFieldReferences
        (JObj [(''$or'', JArr [JObj [(''a'', JNum 1), (''$and'', JArr [JObj [(''hello'', JNull)]])]]),
                   (''b'', JNum 2)]) ''hello'' 2
      = Some (JObj [(''b'', JNum 2),
                    (''$or'', JArr [JObj [(''a'', JNum 1), (''$and'', JArr [JObj [(''hello'', JNull)]])]])])"
    by code_simp
  have n: "\<not> field_within (nat 2) ''hello''
        (JObj [(''$or'', JArr [JObj [(''a'', JNum 1), (''$and'', JArr [JObj [(''hello'', JNull)]])]]),
                   (''b'', JNum 2)])"
    by code_simp
  have q: "is_query (JObj [(''$or'', JArr [JObj [(''a'', JNum 1), (''$and'', JArr [JObj [(''hello'', JNull)]])]]),
                   (''b'', JNum 2)])"
    by simp
  have v: "no_invalid_shape (JObj [(''$or'', JArr [JObj [(''a'', JNum 1), (''$and'', JArr [JObj [(''hello'', JNull)]])]]),
                   (''b'', JNum 2)])"
    by simp
  from absent_field_is_noop [OF q v n] e q v n show ?thesis by simp
qed

text \<open>
  C8. \<^verbatim>\<open>omit(document, keys)\<close> is claimed to return the keys of the document that are not
  listed, and an equivalent copy when the list is empty. With an empty list the first
  key of the parameter pattern is \<^verbatim>\<open>undefined\<close>, so the call removes the key
  \<^verbatim>\<open>"undefined"\<close>: the document \<^verbatim>\<open>{undefined: 1, a: 2}\<close> comes back as \<^verbatim>\<open>{a: 2}\<close>.
\<close>

theorem omit_empty_keys_counterexample:
  "omit (JObj [(''undefined'', JNum 1), (''a'', JNum 2)]) [] = Some [(''a'', JNum 2)] \<and>
   omit (JObj [(''undefined'', JNum 1), (''a'', JNum 2)]) []
     \<noteq> Some [(''undefined'', JNum 1), (''a'', JNum 2)]"
  by (simp add: rest_without_def remove_key_def)

text \<open>
  C8, as amended. For a list of keys that is not empty, \<^verbatim>\<open>omit\<close> returns the properties of
  the document whose keys are not listed, in their order and with their values; a listed
  key that the document does not have changes nothing. With the empty list, a document
  that has no key \<^verbatim>\<open>"undefined"\<close> is returned as an equal copy. The result is a new
  value: the model has no assignment to the document.
\<close>

theorem omit_removes_listed_keys:
  "(keys \<noteq> [] \<longrightarrow> omit (JObj ps) keys = Some (filter (\<lambda>(k, v). k \<notin> set keys) ps)) \<and>
   (''undefined'' \<notin> set (keys_of ps) \<longrightarrow> omit (JObj ps) [] = Some ps)"
  by (simp add: omit_nonempty rest_without_def remove_key_absent)

theorem omit_removes_listed_keys_witness:
  "[''$or'', ''b''] \<noteq> [] \<and>
   omit (JObj [(''a'', JNum 1), (''$or'', JArr []), (''c'', JNull)]) [''$or'', ''b'']
     = Some [(''a'', JNum 1), (''c'', JNull)] \<and>
   ''undefined'' \<notin> set (keys_of [(''a'', JNum 1)]) \<and>
   omit (JObj [(''a'', JNum 1)]) [] = Some [(''a'', JNum 1)]"
  using omit_removes_listed_keys [of "[''$or'', ''b'']" "[(''a'', JNum 1), (''$or'', JArr []), (''c'', JNull)]"]
    omit_removes_listed_keys [of "[]" "[(''a'', JNum 1)]"]
  by simp

text \<open>
  C9. The claimed key order is the original non-operator keys, then \<^verbatim>\<open>$and\<close>, then \<^verbatim>\<open>$or\<close>.
  The object literal of \<^verbatim>\<open>removeFieldReferences\<close> spreads \<^verbatim>\<open>$or\<close> before \<^verbatim>\<open>$and\<close>, and
  \<^verbatim>\<open>addOrClause\<close> assigns \<^verbatim>\<open>$and\<close> where the query had it, here before the key \<^verbatim>\<open>c\<close>.
\<close>

theorem key_order_counterexample:
  "removeFieldReferences
     (JObj [(''$and'', JArr [JObj [(''b'', JNum 2)]]), (''c'', JNum 3),
            (''$or'', JArr [JObj [(''a'', JNum 1)]])]) ''x'' 5
     = Some (JObj [(''c'', JNum 3), (''$or'', JArr [JObj [(''a'', JNum 1)]]),
                   (''$and'', JArr [JObj [(''b'', JNum 2)]])])
   \<and> addOrClause
       (JObj [(''$and'', JArr [JObj [(''b'', JNum 2)]]), (''c'', JNum 3),
              (''$or'', JArr [JObj [(''a'', JNum 1)]])])
       (JObj [(''$or'', JArr [JObj [(''d'', JNum 4)]])])
     = Some (JObj [(''$and'', JArr [JObj [(''b'', JNum 2)], JObj [(''$or'', JArr [JObj [(''a'', JNum 1)]])],
                                    JObj [(''$or'', JArr [JObj [(''d'', JNum 4)]])]]),
                   (''c'', JNum 3)])"
  by code_simp

text \<open>
  C9, as amended. The key order of a result is determined by the query. For
  \<^verbatim>\<open>removeFieldReferences\<close> with \<^verbatim>\<open>maxDepth >= 1\<close> it is the keys of the query other than
  the field name, \<^verbatim>\<open>$or\<close> and \<^verbatim>\<open>$and\<close>, in their original order, then \<^verbatim>\<open>$or\<close>, then
  \<^verbatim>\<open>$and\<close>, each of the two only if the result has it. \<^verbatim>\<open>addOrClause\<close> keeps the keys of the
  query in their original order: when the query has \<^verbatim>\<open>$or\<close>, that key is dropped and
  \<^verbatim>\<open>$and\<close> stays in its place, or goes last when the query had none; when the query has
  \<^verbatim>\<open>$and\<close> only, the keys are those of the query; when it has neither, the keys of the
  query are followed by the keys of \<^verbatim>\<open>orClause\<close> that the query does not have (for keys of
  \<^verbatim>\<open>orClause\<close> that are no array indices).
\<close>

theorem key_order:
  "(is_query (JObj ps) \<and> 1 \<le> maxDepth \<longrightarrow>
      (\<exists>r. removeFieldReferences (JObj ps) f maxDepth = Some (JObj r)
         \<and> keys_of r = filter (\<lambda>k. k \<noteq> f \<and> k \<noteq> ''$or'' \<and> k \<noteq> ''$and'') (keys_of ps)
                         @ filter (\<lambda>k. k \<in> set (keys_of r)) [''$or'', ''$and'']))
   \<and> (is_query (JObj ps) \<and> ''$or'' \<in> set (keys_of ps) \<longrightarrow>
      (\<exists>r. addOrClause (JObj ps) orClause = Some (JObj r)
         \<and> keys_of r = filter (\<lambda>k. k \<noteq> ''$or'') (keys_of ps)
                         @ (if ''$and'' \<in> set (keys_of ps) then [] else [''$and''])))
   \<and> (is_query (JObj ps) \<and> ''$or'' \<notin> set (keys_of ps) \<and> ''$and'' \<in> set (keys_of ps) \<longrightarrow>
      (\<exists>r. addOrClause (JObj ps) orClause = Some (JObj r) \<and> keys_of r = keys_of ps))
   \<and> (''$or'' \<notin> set (keys_of ps) \<and> ''$and'' \<notin> set (keys_of ps)
        \<and> distinct (keys_of (spread_props orClause))
        \<and> (\<forall>k \<in> set (keys_of (spread_props orClause)). \<not> is_array_index k) \<longrightarrow>
      (\<exists>r. addOrClause (JObj ps) orClause = Some (JObj r)
         \<and> keys_of r = keys_of ps
                         @ filter (\<lambda>k. k \<notin> set (keys_of ps)) (keys_of (spread_props orClause))))"
proof (intro conjI impI)
  assume h: "is_query (JObj ps) \<and> 1 \<le> maxDepth"
  then obtain r where r: "removeFieldReferences (JObj ps) f maxDepth = Some r"
    using rfr_total [of "JObj ps" f maxDepth] by blast
  with h obtain newOr newAnd where "r = JObj (assemble ps f newOr newAnd)"
    using rfr_pos_shape [of maxDepth ps f r] by auto
  with r show "\<exists>r. removeFieldReferences (JObj ps) f maxDepth = Some (JObj r)
         \<and> keys_of r = filter (\<lambda>k. k \<noteq> f \<and> k \<noteq> ''$or'' \<and> k \<noteq> ''$and'') (keys_of ps)
                         @ filter (\<lambda>k. k \<in> set (keys_of r)) [''$or'', ''$and'']"
    using keys_assemble_order [of ps f newOr newAnd] by blast
next
  assume h: "is_query (JObj ps) \<and> ''$or'' \<in> set (keys_of ps)"
  then have o: "truthy (get_prop ps ''$or'')"
    using clause_of_query(2) [of ps "''$or''"] by simp
  have it: "iterate (or_empty (get_prop ps ''$and'')) = Some (clause_list ps ''$and'')"
    using h clause_of_query(1) [of ps "''$and''"] by simp
  have "keys_of (put ''$and'' v (remove_key ''$or'' ps))
        = filter (\<lambda>k. k \<noteq> ''$or'') (keys_of ps)
            @ (if ''$and'' \<in> set (keys_of ps) then [] else [''$and''])" for v
    by (simp add: keys_put_old keys_put_new keys_remove_key and_not_index)
  then show "\<exists>r. addOrClause (JObj ps) orClause = Some (JObj r)
         \<and> keys_of r = filter (\<lambda>k. k \<noteq> ''$or'') (keys_of ps)
                         @ (if ''$and'' \<in> set (keys_of ps) then [] else [''$and''])"
    using addOrClause_or [OF _ o it, of "JObj ps" orClause] by simp
next
  assume h: "is_query (JObj ps) \<and> ''$or'' \<notin> set (keys_of ps) \<and> ''$and'' \<in> set (keys_of ps)"
  then have a: "truthy (get_prop ps ''$and'')"
    "iterate (get_prop ps ''$and'') = Some (clause_list ps ''$and'')"
    using clause_of_query(2) [of ps "''$and''"] by simp_all
  from h have "\<not> truthy (get_prop ps ''$or'')" by (simp add: get_prop_absent)
  then show "\<exists>r. addOrClause (JObj ps) orClause = Some (JObj r) \<and> keys_of r = keys_of ps"
    using addOrClause_and [OF _ _ a, of "JObj ps" orClause] h
    by (simp add: remove_key_absent keys_put_old)
next
  assume h: "''$or'' \<notin> set (keys_of ps) \<and> ''$and'' \<notin> set (keys_of ps)
        \<and> distinct (keys_of (spread_props orClause))
        \<and> (\<forall>k \<in> set (keys_of (spread_props orClause)). \<not> is_array_index k)"
  then have "addOrClause (JObj ps) orClause = Some (JObj (spread ps (spread_props orClause)))"
    using addOrClause_merge [of "JObj ps" ps orClause] by (simp add: get_prop_absent)
  with h show "\<exists>r. addOrClause (JObj ps) orClause = Some (JObj r)
         \<and> keys_of r = keys_of ps
                         @ filter (\<lambda>k. k \<notin> set (keys_of ps)) (keys_of (spread_props orClause))"
    by (simp add: keys_spread)
qed

theorem key_order_witness:
  "is_query (JObj [(''$and'', JArr [JObj [(''b'', JNum 2)]]), (''c'', JNum 3), (''$or'', JArr [JObj [(''a'', JNum 1)]])]) \<and> (1::int) \<le> 5
   \<and> ''$or'' \<in> set (keys_of [(''$and'', JArr [JObj [(''b'', JNum 2)]]), (''c'', JNum 3), (''$or'', JArr [JObj [(''a'', JNum 1)]])])
   \<and> removeFieldReferences (JObj [(''$and'', JArr [JObj [(''b'', JNum 2)]]), (''c'', JNum 3), (''$or'', JArr [JObj [(''a'', JNum 1)]])]) ''x'' 5
       = Some (JObj [(''c'', JNum 3), (''$or'', JArr [JObj [(''a'', JNum 1)]]), (''$and'', JArr [JObj [(''b'', JNum 2)]])])
   \<and> addOrClause (JObj [(''$and'', JArr [JObj [(''b'', JNum 2)]]), (''c'', JNum 3), (''$or'', JArr [JObj [(''a'', JNum 1)]])]) (JObj [(''$or'', JArr [JObj [(''d'', JNum 4)]])])
       = Some (JObj [(''$and'', JArr [JObj [(''b'', JNum 2)], JObj [(''$or'', JArr [JObj [(''a'', JNum 1)]])], JObj [(''$or'', JArr [JObj [(''d'', JNum 4)]])]]), (''c'', JNum 3)])
   \<and> is_query (JObj [(''$and'', JArr [JObj [(''b'', JNum 2)]]), (''c'', JNum 3)])
   \<and> ''$or'' \<notin> set (keys_of [(''$and'', JArr [JObj [(''b'', JNum 2)]]), (''c'', JNum 3)]) \<and> ''$and'' \<in> set (keys_of [(''$and'', JArr [JObj [(''b'', JNum 2)]]), (''c'', JNum 3)])
   \<and> addOrClause (JObj [(''$and'', JArr [JObj [(''b'', JNum 2)]]), (''c'', JNum 3)]) (JObj [(''$or'', JArr [JObj [(''d'', JNum 4)]])])
       = Some (JObj [(''$and'', JArr [JObj [(''b'', JNum 2)], JObj [(''$or'', JArr [JObj [(''d'', JNum 4)]])]]), (''c'', JNum 3)])
   \<and> ''$or'' \<notin> set (keys_of [(''c'', JNum 3), (''e'', JNum 5)]) \<and> ''$and'' \<notin> set (keys_of [(''c'', JNum 3), (''e'', JNum 5)])
   \<and> distinct (keys_of (spread_props (JObj [(''e'', JNum 6), (''$or'', JArr [JObj [(''d'', JNum 4)]])])))
   \<and> list_all (\<lambda>k. \<not> is_array_index k) (keys_of (spread_props (JObj [(''e'', JNum 6), (''$or'', JArr [JObj [(''d'', JNum 4)]])])))
   \<and> addOrClause (JObj [(''c'', JNum 3), (''e'', JNum 5)]) (JObj [(''e'', JNum 6), (''$or'', JArr [JObj [(''d'', JNum 4)]])])
       = Some (JObj [(''c'', JNum 3), (''e'', JNum 6), (''$or'', JArr [JObj [(''d'', JNum 4)]])])"
proof -
  have e1: "removeFieldReferences (JObj [(''$and'', JArr [JObj [(''b'', JNum 2)]]), (''c'', JNum 3), (''$or'', JArr [JObj [(''a'', JNum 1)]])]) ''x'' 5
       = Some (JObj [(''c'', JNum 3), (''$or'', JArr [JObj [(''a'', JNum 1)]]), (''$and'', JArr [JObj [(''b'', JNum 2)]])])"
    by code_simp
  have e2: "addOrClause (JObj [(''$and'', JArr [JObj [(''b'', JNum 2)]]), (''c'', JNum 3), (''$or'', JArr [JObj [(''a'', JNum 1)]])]) (JObj [(''$or'', JArr [JObj [(''d'', JNum 4)]])])
       = Some (JObj [(''$and'', JArr [JObj [(''b'', JNum 2)], JObj [(''$or'', JArr [JObj [(''a'', JNum 1)]])], JObj [(''$or'', JArr [JObj [(''d'', JNum 4)]])]]), (''c'', JNum 3)])"
    by code_simp
  have e3: "addOrClause (JObj [(''$and'', JArr [JObj [(''b'', JNum 2)]]), (''c'', JNum 3)]) (JObj [(''$or'', JArr [JObj [(''d'', JNum 4)]])])
       = Some (JObj [(''$and'', JArr [JObj [(''b'', JNum 2)], JObj [(''$or'', JArr [JObj [(''d'', JNum 4)]])]]), (''c'', JNum 3)])"
    by code_simp
  have e4: "addOrClause (JObj [(''c'', JNum 3), (''e'', JNum 5)]) (JObj [(''e'', JNum 6), (''$or'', JArr [JObj [(''d'', JNum 4)]])])
       = Some (JObj [(''c'', JNum 3), (''e'', JNum 6), (''$or'', JArr [JObj [(''d'', JNum 4)]])])"
    by code_simp
  have n: "list_all (\<lambda>k. \<not> is_array_index k) (keys_of (spread_props (JObj [(''e'', JNum 6), (''$or'', JArr [JObj [(''d'', JNum 4)]])])))"
    by (simp add: spread_props_def is_array_index_def is_digit_def)
  from key_order [of "[(''$and'', JArr [JObj [(''b'', JNum 2)]]), (''c'', JNum 3), (''$or'', JArr [JObj [(''a'', JNum 1)]])]" 5 "''x''" "JObj [(''$or'', JArr [JObj [(''d'', JNum 4)]])]"]
    key_order [of "[(''$and'', JArr [JObj [(''b'', JNum 2)]]), (''c'', JNum 3)]" 5 "''x''" "JObj [(''$or'', JArr [JObj [(''d'', JNum 4)]])]"]
    key_order [of "[(''c'', JNum 3), (''e'', JNum 5)]" 5 "''x''" "JObj [(''e'', JNum 6), (''$or'', JArr [JObj [(''d'', JNum 4)]])]"]
    e1 e2 e3 e4 n
  show ?thesis by (simp add: spread_props_def)
qed

text \<open>
  C10. The operator names are field names like any other: for a query document and
  \<^verbatim>\<open>maxDepth >= 1\<close>, \<^verbatim>\<open>removeFieldReferences(q, '$or', maxDepth)\<close> has no \<^verbatim>\<open>$or\<close> key at the
  top level nor at any nesting level reachable within \<^verbatim>\<open>maxDepth\<close> steps (the levels below
  \<^verbatim>\<open>maxDepth\<close>, the top level being level 0), and likewise for \<^verbatim>\<open>$and\<close>. The clause goes
  with the omission at the top level and is not recursed into: the result is the one
  obtained from the query without that key.
\<close>

theorem operator_names_are_removable:
  assumes "is_query (JObj ps)" and "1 \<le> maxDepth" and "f = ''$or'' \<or> f = ''$and''"
  shows "\<exists>r. removeFieldReferences (JObj ps) f maxDepth = Some r
     \<and> \<not> field_within (nat maxDepth) f r
     \<and> removeFieldReferences (JObj (remove_key f ps)) f maxDepth = Some r"
  using assms rfr_total [of "JObj ps" f maxDepth] rfr_removes_field [of "JObj ps" f maxDepth]
    rfr_ignores_field [of maxDepth f ps]
  by auto

theorem operator_names_are_removable_witness:
  "is_query (JObj [(''a'', JNum 1), (''$or'', JArr [JObj [(''b'', JNum 2)]]),
                   (''$and'', JArr [JObj [(''$or'', JArr [JObj [(''c'', JNum 3)]]), (''d'', JNum 4)]])])
   \<and> (1::int) \<le> 5 \<and> (''$or'' = ''$or'' \<or> ''$or'' = ''$and'')
   \<and> removeFieldReferences
        (JObj [(''a'', JNum 1), (''$or'', JArr [JObj [(''b'', JNum 2)]]),
               (''$and'', JArr [JObj [(''$or'', JArr [JObj [(''c'', JNum 3)]]), (''d'', JNum 4)]])])
        ''$or'' 5
      = Some (JObj [(''a'', JNum 1), (''$and'', JArr [JObj [(''d'', JNum 4)]])])
   \<and> removeFieldReferences
        (JObj (remove_key ''$or'' [(''a'', JNum 1), (''$or'', JArr [JObj [(''b'', JNum 2)]]),
               (''$and'', JArr [JObj [(''$or'', JArr [JObj [(''c'', JNum 3)]]), (''d'', JNum 4)]])]))
        ''$or'' 5
      = Some (JObj [(''a'', JNum 1), (''$and'', JArr [JObj [(''d'', JNum 4)]])])
   \<and> \<not> field_within (nat 5) ''$or'' (JObj [(''a'', JNum 1), (''$and'', JArr [JObj [(''d'', JNum 4)]])])"
proof -
  have e: "removeFieldReferences
        (JObj [(''a'', JNum 1), (''$or'', JArr [JObj [(''b'', JNum 2)]]),
               (''$and'', JArr [JObj [(''$or'', JArr [JObj [(''c'', JNum 3)]]), (''d'', JNum 4)]])])
        ''$or'' 5
      = Some (JObj [(''a'', JNum 1), (''$and'', JArr [JObj [(''d'', JNum 4)]])])"
    by code_simp
  have q: "is_query (JObj [(''a'', JNum 1), (''$or'', JArr [JObj [(''b'', JNum 2)]]),
                   (''$and'', JArr [JObj [(''$or'', JArr [JObj [(''c'', JNum 3)]]), (''d'', JNum 4)]])])"
    by simp
  from operator_names_are_removable [OF q, of 5 "''$or''"] e q show ?thesis by simp
qed

end
